theory Spec2Isabelle
  imports Complex_Main "HOL-Library.Sublist"
begin

section \<open>The production scheduler: schema, triggers and GraphQL operations\<close>

text \<open>
  The program is a PostgreSQL schema (tables with constraints, two trigger functions and
  sample data) served through Hasura, and a React front end that issues a handful of
  GraphQL queries and mutations against it. The model below follows the schema table by
  table and the front end operation by operation. A column is a record field, an ENUM a
  datatype, a nullable column an \<open>option\<close>, a table the list of its rows in insertion
  order, and a statement a function from the database to an error or the new database.
\<close>

subsection \<open>Column types\<close>

text \<open>
  \<open>UUID\<close> values are opaque keys, taken as natural numbers. \<open>TIMESTAMPTZ\<close> is a count of
  microseconds. \<open>DECIMAL(10,2)\<close> is exact with two fractional digits and is kept as the
  integer number of hundredths (so \<open>100.00\<close> is \<open>10000\<close>). \<open>JSONB\<close> objects built by
  \<open>jsonb_build_object\<close> are key/value lists. An \<open>INTEGER\<close> or \<open>VARCHAR\<close> value is of its
  column's type: a \<open>VARCHAR(50)\<close> is a string the column accepts. A \<open>DECIMAL(10,2)\<close> value
  comes rounded to two fractional digits; the column holds it when fewer than eight
  digits stand before the point, and an insert of a larger one raises.
\<close>

type_synonym uuid = nat
type_synonym timestamptz = int
type_synonym decimal = int
type_synonym jsonb = "(string \<times> string) list"

definition decimal_10_2 :: "decimal \<Rightarrow> bool" where
  "decimal_10_2 q \<longleftrightarrow> - 10000000000 < q \<and> q < 10000000000"

datatype order_status = pending | scheduled | in_progress | completed | cancelled
datatype resource_type = machine | worker | material
datatype resource_status = available | in_use | maintenance | unavailable

subsection \<open>Tables\<close>

record production_order =
  po_id :: uuid
  order_number :: string
  product_name :: string
  quantity :: int
  po_status :: order_status
  priority :: int
  scheduled_start :: "timestamptz option"
  scheduled_end :: "timestamptz option"
  actual_start :: "timestamptz option"
  actual_end :: "timestamptz option"
  po_notes :: "string option"
  po_created_at :: timestamptz
  po_updated_at :: timestamptz

record resource =
  r_id :: uuid
  r_name :: string
  r_type :: resource_type
  r_status :: resource_status
  capacity :: "decimal option"
  hourly_cost :: "decimal option"
  description :: "string option"
  r_created_at :: timestamptz
  r_updated_at :: timestamptz

record resource_allocation =
  ra_id :: uuid
  ra_order_id :: uuid
  ra_resource_id :: uuid
  allocated_quantity :: decimal
  start_time :: timestamptz
  end_time :: "timestamptz option"
  ra_notes :: "string option"
  ra_created_at :: timestamptz
  ra_updated_at :: timestamptz

record order_event =
  oe_id :: uuid
  oe_order_id :: uuid
  event_type :: string
  old_status :: "order_status option"
  new_status :: "order_status option"
  changed_by :: "string option"
  metadata :: "jsonb option"
  oe_created_at :: timestamptz

record database =
  production_orders :: "production_order list"
  resources :: "resource list"
  resource_allocations :: "resource_allocation list"
  order_events :: "order_event list"

definition empty_database :: database where
  "empty_database =
     \<lparr>production_orders = [], resources = [], resource_allocations = [], order_events = []\<rparr>"

text \<open>
  A statement that violates a constraint raises and its transaction is rolled back. The
  conditions the schema can raise: a \<open>CHECK\<close> fails, a \<open>PRIMARY KEY\<close> or \<open>UNIQUE\<close> index
  already holds the key, a \<open>REFERENCES\<close> target is absent, a \<open>DECIMAL(10,2)\<close> column is
  given a value out of its range (SQLSTATE 22003).
\<close>

datatype pg_error =
  check_violation | unique_violation | foreign_key_violation | numeric_value_out_of_range

subsection \<open>Trigger functions\<close>

datatype tg_op = INSERT | UPDATE | DELETE

text \<open>\<open>update_updated_at_column\<close>: \<open>NEW.updated_at = NOW(); RETURN NEW\<close>.\<close>

definition update_updated_at_column :: "timestamptz \<Rightarrow> production_order \<Rightarrow> production_order" where
  "update_updated_at_column now NEW = NEW\<lparr>po_updated_at := now\<rparr>"

text \<open>
  \<open>INSERT INTO order_events (order_id, event_type, old_status, new_status, metadata)\<close>:
  \<open>id\<close> is \<open>gen_random_uuid()\<close>, here the value \<open>gen\<close> drawn for this row, \<open>changed_by\<close>
  stays \<open>NULL\<close> and \<open>created_at\<close> is \<open>NOW()\<close>. The primary key and the reference to
  \<open>production_orders\<close> are checked.
\<close>

definition INSERT_order_events ::
  "timestamptz \<Rightarrow> uuid \<Rightarrow> uuid \<Rightarrow> string \<Rightarrow> order_status option \<Rightarrow> order_status option \<Rightarrow>
   jsonb option \<Rightarrow> database \<Rightarrow> pg_error + database" where
  "INSERT_order_events now gen oid ty old new md db =
     (if \<exists>e \<in> set (order_events db). oe_id e = gen then Inl unique_violation
      else if \<not> (\<exists>p \<in> set (production_orders db). po_id p = oid) then Inl foreign_key_violation
      else Inr (db\<lparr>order_events := order_events db @
             [\<lparr>oe_id = gen, oe_order_id = oid, event_type = ty, old_status = old,
               new_status = new, changed_by = None, metadata = md, oe_created_at = now\<rparr>]\<rparr>))"

text \<open>
  \<open>log_order_status_change\<close>: when the operation is an update and the status is distinct
  from the old one (the column is \<open>NOT NULL\<close>, so distinct is unequal), one
  \<open>status_change\<close> event is inserted.
\<close>

definition log_order_status_change ::
  "timestamptz \<Rightarrow> uuid \<Rightarrow> tg_op \<Rightarrow> production_order \<Rightarrow> production_order \<Rightarrow> database \<Rightarrow>
   pg_error + database" where
  "log_order_status_change now gen op OLD NEW db =
     (if op = UPDATE \<and> po_status OLD \<noteq> po_status NEW
      then INSERT_order_events now gen (po_id NEW) ''status_change''
             (Some (po_status OLD)) (Some (po_status NEW))
             (Some [(''order_number'', order_number NEW), (''product_name'', product_name NEW)]) db
      else Inr db)"

subsection \<open>Statements on \<open>production_orders\<close>\<close>

text \<open>The two \<open>CHECK\<close> constraints of the table.\<close>

definition production_orders_check :: "production_order \<Rightarrow> bool" where
  "production_orders_check NEW \<longleftrightarrow> quantity NEW > 0 \<and> 1 \<le> priority NEW \<and> priority NEW \<le> 5"

text \<open>
  \<open>INSERT INTO production_orders (order_number, product_name, quantity, status, priority,
  scheduled_start, scheduled_end, notes)\<close>, the column list of the sample data. \<open>status\<close>
  and \<open>priority\<close> may be left to their defaults \<open>'pending'\<close> and \<open>1\<close> (\<open>None\<close> here).
\<close>

record order_values =
  v_order_number :: string
  v_product_name :: string
  v_quantity :: int
  v_status :: "order_status option"
  v_priority :: "int option"
  v_scheduled_start :: "timestamptz option"
  v_scheduled_end :: "timestamptz option"
  v_notes :: "string option"

definition new_production_order :: "timestamptz \<Rightarrow> uuid \<Rightarrow> order_values \<Rightarrow> production_order" where
  "new_production_order now gen v =
     \<lparr>po_id = gen, order_number = v_order_number v, product_name = v_product_name v,
      quantity = v_quantity v,
      po_status = (case v_status v of None \<Rightarrow> pending | Some s \<Rightarrow> s),
      priority = (case v_priority v of None \<Rightarrow> 1 | Some p \<Rightarrow> p),
      scheduled_start = v_scheduled_start v, scheduled_end = v_scheduled_end v,
      actual_start = None, actual_end = None, po_notes = v_notes v,
      po_created_at = now, po_updated_at = now\<rparr>"

text \<open>
  The row's checks come first, then the unique indexes (\<open>id\<close>, \<open>order_number\<close>). No
  trigger is attached to inserts: both triggers of the table are \<open>UPDATE\<close> triggers.
\<close>

definition INSERT_production_orders ::
  "timestamptz \<Rightarrow> uuid \<Rightarrow> order_values \<Rightarrow> database \<Rightarrow> pg_error + database" where
  "INSERT_production_orders now gen v db =
     (let NEW = new_production_order now gen v in
      if \<not> production_orders_check NEW then Inl check_violation
      else if \<exists>p \<in> set (production_orders db).
                po_id p = po_id NEW \<or> order_number p = order_number NEW
      then Inl unique_violation
      else Inr (db\<lparr>production_orders := production_orders db @ [NEW]\<rparr>))"

text \<open>
  The \<open>_set\<close> argument of \<open>update_production_orders_by_pk\<close> is a list of column
  assignments. The front end passes the key as \<open>pk_columns\<close> and assigns \<open>status\<close> only;
  the model takes assignments to every column but the key.
\<close>

datatype order_assignment =
    Set_order_number string
  | Set_product_name string
  | Set_quantity int
  | Set_status order_status
  | Set_priority int
  | Set_scheduled_start "timestamptz option"
  | Set_scheduled_end "timestamptz option"
  | Set_actual_start "timestamptz option"
  | Set_actual_end "timestamptz option"
  | Set_notes "string option"
  | Set_created_at timestamptz
  | Set_updated_at timestamptz

fun assign :: "order_assignment \<Rightarrow> production_order \<Rightarrow> production_order" where
  "assign (Set_order_number x) r = r\<lparr>order_number := x\<rparr>"
| "assign (Set_product_name x) r = r\<lparr>product_name := x\<rparr>"
| "assign (Set_quantity x) r = r\<lparr>quantity := x\<rparr>"
| "assign (Set_status x) r = r\<lparr>po_status := x\<rparr>"
| "assign (Set_priority x) r = r\<lparr>priority := x\<rparr>"
| "assign (Set_scheduled_start x) r = r\<lparr>scheduled_start := x\<rparr>"
| "assign (Set_scheduled_end x) r = r\<lparr>scheduled_end := x\<rparr>"
| "assign (Set_actual_start x) r = r\<lparr>actual_start := x\<rparr>"
| "assign (Set_actual_end x) r = r\<lparr>actual_end := x\<rparr>"
| "assign (Set_notes x) r = r\<lparr>po_notes := x\<rparr>"
| "assign (Set_created_at x) r = r\<lparr>po_created_at := x\<rparr>"
| "assign (Set_updated_at x) r = r\<lparr>po_updated_at := x\<rparr>"

definition production_orders_by_pk :: "database \<Rightarrow> uuid \<Rightarrow> production_order option" where
  "production_orders_by_pk db pk = find (\<lambda>p. po_id p = pk) (production_orders db)"

text \<open>
  \<open>update_production_orders_by_pk\<close>: Hasura returns \<open>null\<close> and changes nothing when no
  row has the key. Otherwise the row \<open>OLD\<close> is rewritten in one statement: the assignments
  give \<open>NEW\<close>, the \<open>BEFORE UPDATE\<close> trigger stamps \<open>updated_at\<close>, the checks and the unique
  index on \<open>order_number\<close> are verified, the row is stored, and the \<open>AFTER UPDATE\<close> trigger
  \<open>log_order_status_change\<close> runs with \<open>gen\<close> as the value \<open>gen_random_uuid()\<close> yields
  there. An error in any step, the trigger's insert included, fails the statement as a
  whole. \<open>id\<close> is the primary key, so the replaced row is the one found.
\<close>

definition update_production_orders_by_pk ::
  "timestamptz \<Rightarrow> uuid \<Rightarrow> uuid \<Rightarrow> order_assignment list \<Rightarrow> database \<Rightarrow>
   pg_error + (production_order option \<times> database)" where
  "update_production_orders_by_pk now gen pk sets db =
     (case production_orders_by_pk db pk of
        None \<Rightarrow> Inr (None, db)
      | Some OLD \<Rightarrow>
          (let NEW = update_updated_at_column now (fold assign sets OLD) in
           if \<not> production_orders_check NEW then Inl check_violation
           else if \<exists>p \<in> set (production_orders db).
                     po_id p \<noteq> pk \<and> order_number p = order_number NEW
           then Inl unique_violation
           else
             (case log_order_status_change now gen UPDATE OLD NEW
                     (db\<lparr>production_orders :=
                           map (\<lambda>p. if po_id p = pk then NEW else p) (production_orders db)\<rparr>) of
                Inl e \<Rightarrow> Inl e
              | Inr db' \<Rightarrow> Inr (Some NEW, db'))))"

text \<open>The mutation \<open>UpdateOrderStatus($id, $status)\<close>: \<open>_set: { status: $status }\<close>.\<close>

definition UPDATE_ORDER_STATUS ::
  "timestamptz \<Rightarrow> uuid \<Rightarrow> uuid \<Rightarrow> order_status \<Rightarrow> database \<Rightarrow>
   pg_error + (production_order option \<times> database)" where
  "UPDATE_ORDER_STATUS now gen pk s db = update_production_orders_by_pk now gen pk [Set_status s] db"

text \<open>
  \<open>handleStatusChange\<close> of the orders list awaits that mutation with the order's key and
  the new status; an error is caught and logged, and the database is then what it was.
  (The optimistic response only fills the client's cache.)
\<close>

definition OrdersList_handleStatusChange ::
  "timestamptz \<Rightarrow> uuid \<Rightarrow> uuid \<Rightarrow> order_status \<Rightarrow> database \<Rightarrow> database" where
  "OrdersList_handleStatusChange now gen orderId newStatus db =
     (case UPDATE_ORDER_STATUS now gen orderId newStatus db of
        Inl _ \<Rightarrow> db | Inr (_, db') \<Rightarrow> db')"

text \<open>
  The quick status actions of the orders list: the one button a row shows, by its
  status, and the status it passes to \<open>handleStatusChange\<close>.
\<close>

fun quick_status_action :: "order_status \<Rightarrow> order_status option" where
  "quick_status_action pending = Some scheduled"
| "quick_status_action scheduled = Some in_progress"
| "quick_status_action in_progress = Some completed"
| "quick_status_action _ = None"

subsection \<open>Statements on \<open>resources\<close> and \<open>resource_allocations\<close>\<close>

text \<open>
  \<open>INSERT INTO resources (name, type, status, capacity, hourly_cost, description)\<close>;
  \<open>status\<close> defaults to \<open>'available'\<close>. The two \<open>DECIMAL(10,2)\<close> values must fit their
  columns; the table has a primary key and no other constraint.
\<close>

record resource_values =
  v_name :: string
  v_type :: resource_type
  v_resource_status :: "resource_status option"
  v_capacity :: "decimal option"
  v_hourly_cost :: "decimal option"
  v_description :: "string option"

definition INSERT_resources ::
  "timestamptz \<Rightarrow> uuid \<Rightarrow> resource_values \<Rightarrow> database \<Rightarrow> pg_error + database" where
  "INSERT_resources now gen v db =
     (if \<not> (case v_capacity v of None \<Rightarrow> True | Some c \<Rightarrow> decimal_10_2 c) \<or>
         \<not> (case v_hourly_cost v of None \<Rightarrow> True | Some c \<Rightarrow> decimal_10_2 c)
      then Inl numeric_value_out_of_range
      else if \<exists>r \<in> set (resources db). r_id r = gen then Inl unique_violation
      else Inr (db\<lparr>resources := resources db @
             [\<lparr>r_id = gen, r_name = v_name v, r_type = v_type v,
               r_status = (case v_resource_status v of None \<Rightarrow> available | Some s \<Rightarrow> s),
               capacity = v_capacity v, hourly_cost = v_hourly_cost v,
               description = v_description v, r_created_at = now, r_updated_at = now\<rparr>]\<rparr>))"

definition resources_by_pk :: "database \<Rightarrow> uuid \<Rightarrow> resource option" where
  "resources_by_pk db pk = find (\<lambda>r. r_id r = pk) (resources db)"

text \<open>
  The mutation \<open>UpdateResourceStatus($id, $status)\<close>:
  \<open>update_resources_by_pk(pk_columns: { id: $id }, _set: { status: $status })\<close>. The
  \<open>BEFORE UPDATE\<close> trigger of the table stamps \<open>updated_at\<close>; the table has no check and
  no other trigger, and the mutation has no other argument.
\<close>

definition UPDATE_RESOURCE_STATUS ::
  "timestamptz \<Rightarrow> uuid \<Rightarrow> resource_status \<Rightarrow> database \<Rightarrow>
   pg_error + (resource option \<times> database)" where
  "UPDATE_RESOURCE_STATUS now pk s db =
     (case resources_by_pk db pk of
        None \<Rightarrow> Inr (None, db)
      | Some OLD \<Rightarrow>
          (let NEW = OLD\<lparr>r_status := s, r_updated_at := now\<rparr> in
           Inr (Some NEW,
                db\<lparr>resources := map (\<lambda>r. if r_id r = pk then NEW else r) (resources db)\<rparr>)))"

text \<open>
  \<open>handleStatusChange\<close> of the resources list awaits that mutation; an error is caught
  and logged. Each resource card offers \<open>Set Available\<close> unless the resource is
  available and \<open>Maintenance\<close> unless it is in maintenance.
\<close>

definition ResourcesList_handleStatusChange ::
  "timestamptz \<Rightarrow> uuid \<Rightarrow> resource_status \<Rightarrow> database \<Rightarrow> database" where
  "ResourcesList_handleStatusChange now resourceId newStatus db =
     (case UPDATE_RESOURCE_STATUS now resourceId newStatus db of
        Inl _ \<Rightarrow> db | Inr (_, db') \<Rightarrow> db')"

definition resource_quick_actions :: "resource_status \<Rightarrow> resource_status list" where
  "resource_quick_actions s =
     (if s \<noteq> available then [available] else []) @
     (if s \<noteq> maintenance then [maintenance] else [])"

text \<open>
  \<open>INSERT INTO resource_allocations (order_id, resource_id, allocated_quantity,
  start_time, end_time)\<close>, the column list of the sample data. The quantity must fit
  \<open>DECIMAL(10,2)\<close>; the primary key and the \<open>UNIQUE(order_id, resource_id, start_time)\<close>
  index are checked, then the two references. The table has no \<open>CHECK\<close> and no trigger
  that reads \<open>resources.capacity\<close>.
\<close>

record allocation_values =
  v_order_id :: uuid
  v_resource_id :: uuid
  v_allocated_quantity :: decimal
  v_start_time :: timestamptz
  v_end_time :: "timestamptz option"

definition new_resource_allocation ::
  "timestamptz \<Rightarrow> uuid \<Rightarrow> allocation_values \<Rightarrow> resource_allocation" where
  "new_resource_allocation now gen v =
     \<lparr>ra_id = gen, ra_order_id = v_order_id v, ra_resource_id = v_resource_id v,
      allocated_quantity = v_allocated_quantity v, start_time = v_start_time v,
      end_time = v_end_time v, ra_notes = None, ra_created_at = now, ra_updated_at = now\<rparr>"

definition INSERT_resource_allocations ::
  "timestamptz \<Rightarrow> uuid \<Rightarrow> allocation_values \<Rightarrow> database \<Rightarrow> pg_error + database" where
  "INSERT_resource_allocations now gen v db =
     (let NEW = new_resource_allocation now gen v in
      if \<not> decimal_10_2 (allocated_quantity NEW) then Inl numeric_value_out_of_range
      else if \<exists>a \<in> set (resource_allocations db).
           ra_id a = ra_id NEW \<or>
           (ra_order_id a = ra_order_id NEW \<and> ra_resource_id a = ra_resource_id NEW \<and>
            start_time a = start_time NEW)
      then Inl unique_violation
      else if \<not> (\<exists>p \<in> set (production_orders db). po_id p = ra_order_id NEW) \<or>
              \<not> (\<exists>r \<in> set (resources db). r_id r = ra_resource_id NEW)
      then Inl foreign_key_violation
      else Inr (db\<lparr>resource_allocations := resource_allocations db @ [NEW]\<rparr>))"

subsection \<open>Running statements\<close>

text \<open>
  The statements the repository issues: the inserts of the schema file and the two
  update mutations of the front end. Each runs in a transaction of its own at time
  \<open>now\<close>; one that raises is rolled back and leaves the database as it was.
\<close>

datatype statement =
    Insert_production_orders uuid order_values
  | Update_production_orders_by_pk uuid uuid "order_assignment list"
  | Insert_resources uuid resource_values
  | Update_resource_status uuid resource_status
  | Insert_resource_allocations uuid allocation_values

fun exec :: "timestamptz \<Rightarrow> statement \<Rightarrow> database \<Rightarrow> pg_error + database" where
  "exec now (Insert_production_orders gen v) db = INSERT_production_orders now gen v db"
| "exec now (Update_production_orders_by_pk gen pk sets) db =
     (case update_production_orders_by_pk now gen pk sets db of
        Inl e \<Rightarrow> Inl e | Inr (_, db') \<Rightarrow> Inr db')"
| "exec now (Insert_resources gen v) db = INSERT_resources now gen v db"
| "exec now (Update_resource_status pk s) db =
     (case UPDATE_RESOURCE_STATUS now pk s db of Inl e \<Rightarrow> Inl e | Inr (_, db') \<Rightarrow> Inr db')"
| "exec now (Insert_resource_allocations gen v) db = INSERT_resource_allocations now gen v db"

definition step :: "timestamptz \<Rightarrow> statement \<Rightarrow> database \<Rightarrow> database" where
  "step now st db = (case exec now st db of Inl _ \<Rightarrow> db | Inr db' \<Rightarrow> db')"

fun run :: "(timestamptz \<times> statement) list \<Rightarrow> database \<Rightarrow> database" where
  "run [] db = db"
| "run ((now, st) # rest) db = run rest (step now st db)"

subsection \<open>Queries\<close>

text \<open>
  The array relationship \<open>order_events\<close> of an order: the rows of \<open>order_events\<close> whose
  \<open>order_id\<close> is the order's \<open>id\<close>. With \<open>order_by: { created_at: desc }, limit: n\<close> they
  are sorted by \<open>created_at\<close>, latest first, and cut after \<open>n\<close> rows. SQL leaves the order
  of rows with equal \<open>created_at\<close> open; the sort here is stable, so such rows stay in
  the order of their insertion.
\<close>

definition order_events_of :: "database \<Rightarrow> uuid \<Rightarrow> order_event list" where
  "order_events_of db pk = filter (\<lambda>e. oe_order_id e = pk) (order_events db)"

definition order_events_desc_limit :: "database \<Rightarrow> uuid \<Rightarrow> nat \<Rightarrow> order_event list" where
  "order_events_desc_limit db pk n =
     take n (sort_key (\<lambda>e. - oe_created_at e) (order_events_of db pk))"

text \<open>
  The same rows in ascending \<open>created_at\<close> order: the order's log, oldest first, rows
  with equal \<open>created_at\<close> in the order of their insertion.
\<close>

definition order_events_asc :: "database \<Rightarrow> uuid \<Rightarrow> order_event list" where
  "order_events_asc db pk = sort_key oe_created_at (order_events_of db pk)"

text \<open>
  \<open>GetOrderById($id)\<close>: the order, its allocations each with its resource, and its ten
  latest events. The result is \<open>null\<close> when no order has the key.
\<close>

record order_details =
  od_order :: production_order
  od_resource_allocations :: "(resource_allocation \<times> resource option) list"
  od_order_events :: "order_event list"

definition GET_ORDER_BY_ID :: "database \<Rightarrow> uuid \<Rightarrow> order_details option" where
  "GET_ORDER_BY_ID db pk =
     (case production_orders_by_pk db pk of
        None \<Rightarrow> None
      | Some p \<Rightarrow>
          Some \<lparr>od_order = p,
                od_resource_allocations =
                  map (\<lambda>a. (a, resources_by_pk db (ra_resource_id a)))
                    (filter (\<lambda>a. ra_order_id a = pk) (resource_allocations db)),
                od_order_events = order_events_desc_limit db pk 10\<rparr>)"

text \<open>
  \<open>GetResources\<close> asks, for each resource, for
  \<open>resource_allocations_aggregate { aggregate { count sum { allocated_quantity } } }\<close>:
  the number of the resource's allocation rows and the sum of their quantities, \<open>null\<close>
  when there is no row. The aggregate has no \<open>where\<close> argument.
\<close>

record aggregate =
  agg_count :: nat
  agg_sum_allocated_quantity :: "decimal option"

definition resource_allocations_aggregate :: "database \<Rightarrow> uuid \<Rightarrow> aggregate" where
  "resource_allocations_aggregate db rid =
     (let rows = filter (\<lambda>a. ra_resource_id a = rid) (resource_allocations db) in
      \<lparr>agg_count = length rows,
       agg_sum_allocated_quantity =
         (if rows = [] then None else Some (sum_list (map allocated_quantity rows)))\<rparr>)"

text \<open>
  The rows of \<open>GetResources\<close>: the columns of the resource and that aggregate. (The query
  sorts the rows by type and name; the order depends on the collation of the database
  and is left out, the rows stand in table order. Each card is computed from its row
  alone.)
\<close>

record resources_row =
  row_id :: uuid
  row_name :: string
  row_type :: resource_type
  row_status :: resource_status
  row_capacity :: "decimal option"
  row_hourly_cost :: "decimal option"
  row_description :: "string option"
  row_aggregate :: aggregate

definition GET_RESOURCES :: "database \<Rightarrow> resources_row list" where
  "GET_RESOURCES db =
     map (\<lambda>r. \<lparr>row_id = r_id r, row_name = r_name r, row_type = r_type r,
                row_status = r_status r, row_capacity = capacity r,
                row_hourly_cost = hourly_cost r, row_description = description r,
                row_aggregate = resource_allocations_aggregate db (r_id r)\<rparr>)
       (resources db)"

text \<open>
  The rows of the subscription \<open>WatchResources\<close>: it selects \<open>id\<close>, \<open>name\<close>, \<open>type\<close>, \<open>status\<close>
  and \<open>aggregate { count }\<close> only. The capacity, the cost, the description and the sum are
  not in its rows: read from such a row they are \<open>undefined\<close>, which is \<open>None\<close> here as
  \<open>null\<close> is.
\<close>

definition WATCH_RESOURCES :: "database \<Rightarrow> resources_row list" where
  "WATCH_RESOURCES db =
     map (\<lambda>r. \<lparr>row_id = r_id r, row_name = r_name r, row_type = r_type r,
                row_status = r_status r, row_capacity = None,
                row_hourly_cost = None, row_description = None,
                row_aggregate =
                  \<lparr>agg_count = agg_count (resource_allocations_aggregate db (r_id r)),
                   agg_sum_allocated_quantity = None\<rparr>\<rparr>)
       (resources db)"

text \<open>
  \<open>const resources = subData?.resources || queryData?.resources || []\<close>: the rows of the
  subscription once it has delivered (an array is truthy, also when empty), those of the
  query before that, no row while neither has arrived. \<open>None\<close> is data not yet there.
  (The type and status filters of the list choose which cards are drawn; they leave a
  card's row as it is.)
\<close>

definition resources_shown ::
  "resources_row list option \<Rightarrow> resources_row list option \<Rightarrow> resources_row list" where
  "resources_shown subData queryData =
     (case subData of
        Some rs \<Rightarrow> rs
      | None \<Rightarrow> (case queryData of Some rs \<Rightarrow> rs | None \<Rightarrow> []))"

text \<open>
  \<open>utilizationPercent\<close> of a resource card:
  \<open>resource.capacity ? ((sum?.allocated_quantity || 0) / resource.capacity) * 100 : 0\<close>.
  A capacity that is \<open>null\<close>, \<open>undefined\<close> or \<open>0\<close> is falsy and gives \<open>0\<close>. The component
  computes the quotient in double precision; the value here is the exact rational the
  expression denotes (the hundredths of the two decimals cancel).
\<close>

definition utilizationPercent :: "resources_row \<Rightarrow> rat" where
  "utilizationPercent resource =
     (case row_capacity resource of
        None \<Rightarrow> 0
      | Some c \<Rightarrow>
          if c = 0 then 0
          else (of_int (case agg_sum_allocated_quantity (row_aggregate resource) of
                          None \<Rightarrow> 0
                        | Some q \<Rightarrow> if q = 0 then 0 else q) / of_int c) * 100)"

subsection \<open>The constraints of the schema as a predicate\<close>

text \<open>
  What the declared constraints say of the stored rows: primary keys and unique columns
  hold no duplicate, the checks hold, and every reference has its target.
\<close>

definition valid_database :: "database \<Rightarrow> bool" where
  "valid_database db \<longleftrightarrow>
     distinct (map po_id (production_orders db)) \<and>
     distinct (map order_number (production_orders db)) \<and>
     (\<forall>p \<in> set (production_orders db). production_orders_check p) \<and>
     distinct (map r_id (resources db)) \<and>
     distinct (map ra_id (resource_allocations db)) \<and>
     distinct (map (\<lambda>a. (ra_order_id a, ra_resource_id a, start_time a)) (resource_allocations db)) \<and>
     (\<forall>a \<in> set (resource_allocations db).
        (\<exists>p \<in> set (production_orders db). po_id p = ra_order_id a) \<and>
        (\<exists>r \<in> set (resources db). r_id r = ra_resource_id a)) \<and>
     distinct (map oe_id (order_events db)) \<and>
     (\<forall>e \<in> set (order_events db). \<exists>p \<in> set (production_orders db). po_id p = oe_order_id e)"

subsection \<open>The notions of the specification\<close>

text \<open>
  The transition table as the specification lists it: pending to scheduled or cancelled,
  scheduled to in progress or cancelled, in progress to completed or cancelled.
\<close>

definition spec_allowed_transitions :: "(order_status \<times> order_status) list" where
  "spec_allowed_transitions =
     [(pending, scheduled), (pending, cancelled), (scheduled, in_progress),
      (scheduled, cancelled), (in_progress, completed), (in_progress, cancelled)]"

definition spec_allowed_transition :: "order_status \<Rightarrow> order_status \<Rightarrow> bool" where
  "spec_allowed_transition s s' \<longleftrightarrow> (s, s') \<in> set spec_allowed_transitions"

text \<open>
  Replaying a log from a status: each event must leave the status reached so far and
  gives the next one; a log that does not chain has no replay.
\<close>

fun replay :: "order_status \<Rightarrow> order_event list \<Rightarrow> order_status option" where
  "replay s [] = Some s"
| "replay s (e # es) =
     (if old_status e = Some s
      then (case new_status e of None \<Rightarrow> None | Some s' \<Rightarrow> replay s' es)
      else None)"

text \<open>
  An allocation's interval \<open>[start_time, end_time)\<close> contains an instant; an allocation
  with no \<open>end_time\<close> is open. The load of a resource at an instant is the sum of the
  quantities of its allocations whose interval contains it.
\<close>

definition interval_contains :: "resource_allocation \<Rightarrow> timestamptz \<Rightarrow> bool" where
  "interval_contains a t \<longleftrightarrow>
     start_time a \<le> t \<and> (case end_time a of None \<Rightarrow> True | Some e \<Rightarrow> t < e)"

definition load_at :: "database \<Rightarrow> uuid \<Rightarrow> timestamptz \<Rightarrow> decimal" where
  "load_at db rid t =
     sum_list (map allocated_quantity
       (filter (\<lambda>a. ra_resource_id a = rid \<and> interval_contains a t) (resource_allocations db)))"

text \<open>
  A resource is busy when one of its allocations has no \<open>end_time\<close> and belongs to an
  order that is neither completed nor cancelled.
\<close>

definition spec_resource_busy :: "database \<Rightarrow> uuid \<Rightarrow> bool" where
  "spec_resource_busy db rid \<longleftrightarrow>
     (\<exists>a \<in> set (resource_allocations db).
        ra_resource_id a = rid \<and> end_time a = None \<and>
        (\<exists>p \<in> set (production_orders db).
           po_id p = ra_order_id a \<and> po_status p \<noteq> completed \<and> po_status p \<noteq> cancelled))"

subsection \<open>Rows of the sample data\<close>

text \<open>
  Rows the schema file inserts, with \<open>NOW()\<close> at the instant \<open>0\<close> and intervals in
  microseconds (two days are \<open>172800000000\<close>).
\<close>

definition PO_2024_001 :: order_values where
  "PO_2024_001 =
     \<lparr>v_order_number = ''PO-2024-001'', v_product_name = ''Industrial Valve Type A'',
      v_quantity = 100, v_status = Some in_progress, v_priority = Some 5,
      v_scheduled_start = Some 0, v_scheduled_end = Some 172800000000,
      v_notes = Some ''Urgent order for key client''\<rparr>"

definition PO_2024_005 :: order_values where
  "PO_2024_005 =
     \<lparr>v_order_number = ''PO-2024-005'', v_product_name = ''Control Panel Bracket'',
      v_quantity = 75, v_status = Some completed, v_priority = Some 3,
      v_scheduled_start = Some (- 432000000000), v_scheduled_end = Some (- 259200000000),
      v_notes = Some ''Completed ahead of schedule''\<rparr>"

definition John_Smith :: resource_values where
  "John_Smith =
     \<lparr>v_name = ''John Smith'', v_type = worker, v_resource_status = Some available,
      v_capacity = Some 800, v_hourly_cost = Some 2500,
      v_description = Some ''Senior Machine Operator''\<rparr>"

text \<open>
  The allocation the schema file gives order \<open>PO-2024-001\<close> on a resource:
  \<open>50.00\<close> from the order's \<open>scheduled_start\<close> to its \<open>scheduled_end\<close>.
\<close>

definition sample_allocation :: "uuid \<Rightarrow> uuid \<Rightarrow> allocation_values" where
  "sample_allocation oid rid =
     \<lparr>v_order_id = oid, v_resource_id = rid, v_allocated_quantity = 5000,
      v_start_time = 0, v_end_time = Some 172800000000\<rparr>"

text \<open>
  The sample worker stored under the key \<open>5\<close> and the two sample orders under the
  keys \<open>1\<close> and \<open>3\<close>.
\<close>

definition sample_database :: database where
  "sample_database =
     run [(0, Insert_resources 5 John_Smith), (0, Insert_production_orders 1 PO_2024_001),
          (0, Insert_production_orders 3 PO_2024_005)]
       empty_database"

text \<open>
  The sample database after the sample allocation of the order to the worker.
\<close>

definition allocated_database :: database where
  "allocated_database =
     step 0 (Insert_resource_allocations 9 (sample_allocation 1 5)) sample_database"

text \<open>
  The sample database after the order \<open>PO-2024-001\<close>, inserted in progress, is
  completed at the instant 7.
\<close>

definition completed_database :: database where
  "completed_database =
     run [(7, Update_production_orders_by_pk 8 1 [Set_status completed])] sample_database"

text \<open>
  A worker in use, with an open allocation (no \<open>end_time\<close>) on the order in progress.
\<close>

definition busy_database :: database where
  "busy_database =
     run [(0, Insert_resources 5 (John_Smith\<lparr>v_resource_status := Some in_use\<rparr>)),
          (0, Insert_production_orders 1 PO_2024_001),
          (0, Insert_resource_allocations 9 ((sample_allocation 1 5)\<lparr>v_end_time := None\<rparr>))]
       empty_database"

text \<open>
  A new order as \<open>CreateOrder\<close> passes it: no status, so the column's default applies.
\<close>

definition PO_new :: order_values where
  "PO_new =
     \<lparr>v_order_number = ''PO-001'', v_product_name = ''Valve'', v_quantity = 100,
      v_status = None, v_priority = Some 5, v_scheduled_start = None,
      v_scheduled_end = None, v_notes = None\<rparr>"

text \<open>
  The life of a new order: created, then scheduled, started and completed by three
  \<open>UpdateOrderStatus\<close> mutations at the instants 1, 2 and 3.
\<close>

definition lifecycle :: "(timestamptz \<times> statement) list" where
  "lifecycle =
     [(1, Update_production_orders_by_pk 11 2 [Set_status scheduled]),
      (2, Update_production_orders_by_pk 12 2 [Set_status in_progress]),
      (3, Update_production_orders_by_pk 13 2 [Set_status completed])]"

definition logged_database :: database where
  "logged_database = run ((0, Insert_production_orders 2 PO_new) # lifecycle) empty_database"

subsection \<open>Invariants of the event log\<close>

text \<open>
  Every event refers to a stored order, and the table, in insertion order, is in
  \<open>created_at\<close> order.
\<close>

definition events_refer_to_orders :: "database \<Rightarrow> bool" where
  "events_refer_to_orders db \<longleftrightarrow>
     (\<forall>e \<in> set (order_events db). \<exists>p \<in> set (production_orders db). po_id p = oe_order_id e)"

definition log_in_time_order :: "database \<Rightarrow> bool" where
  "log_in_time_order db \<longleftrightarrow> sorted (map oe_created_at (order_events db))"

section \<open>Auxiliary facts\<close>

lemmas model_defs =
  empty_database_def update_updated_at_column_def INSERT_order_events_def
  log_order_status_change_def production_orders_check_def new_production_order_def
  INSERT_production_orders_def production_orders_by_pk_def update_production_orders_by_pk_def
  UPDATE_ORDER_STATUS_def OrdersList_handleStatusChange_def
  ResourcesList_handleStatusChange_def resource_quick_actions_def INSERT_resources_def resources_by_pk_def UPDATE_RESOURCE_STATUS_def
  new_resource_allocation_def INSERT_resource_allocations_def step_def order_events_of_def
  order_events_desc_limit_def order_events_asc_def GET_ORDER_BY_ID_def
  resource_allocations_aggregate_def GET_RESOURCES_def WATCH_RESOURCES_def
  resources_shown_def utilizationPercent_def decimal_10_2_def valid_database_def
  spec_allowed_transitions_def spec_allowed_transition_def interval_contains_def load_at_def
  spec_resource_busy_def PO_2024_001_def PO_2024_005_def John_Smith_def sample_allocation_def
  sample_database_def allocated_database_def completed_database_def busy_database_def PO_new_def
  lifecycle_def logged_database_def

subsection \<open>Looking rows up by their key\<close>

lemma assign_po_id: "po_id (assign a r) = po_id r"
  by (cases a) simp_all

lemma fold_assign_po_id: "po_id (fold assign sets r) = po_id r"
  by (induction sets arbitrary: r) (simp_all add: assign_po_id)

lemma find_po_id: "find (\<lambda>p. po_id p = pk) xs = Some r \<Longrightarrow> po_id r = pk \<and> r \<in> set xs"
  by (induction xs) (auto split: if_splits)

lemma find_replaced:
  "find (\<lambda>p. po_id p = pk) xs = Some OLD \<Longrightarrow> po_id NEW = pk \<Longrightarrow>
   find (\<lambda>p. po_id p = pk) (map (\<lambda>p. if po_id p = pk then NEW else p) xs) = Some NEW"
  by (induction xs) (auto split: if_splits)

lemma find_other:
  "po_id NEW = pk \<Longrightarrow> pk \<noteq> k \<Longrightarrow>
   find (\<lambda>p. po_id p = k) (map (\<lambda>p. if po_id p = pk then NEW else p) xs) =
   find (\<lambda>p. po_id p = k) xs"
  by (induction xs) (auto split: if_splits)

lemma find_snoc:
  "find P (xs @ [y]) =
     (case find P xs of None \<Rightarrow> (if P y then Some y else None) | Some x \<Rightarrow> Some x)"
  by (induction xs) auto

subsection \<open>What an update of an order does\<close>

lemma INSERT_order_events_Inr:
  "INSERT_order_events now gen oid ty a b c db1 = Inr db' \<Longrightarrow>
   \<not> (\<exists>e \<in> set (order_events db1). oe_id e = gen) \<and>
   (\<exists>p \<in> set (production_orders db1). po_id p = oid) \<and>
   db' = db1\<lparr>order_events := order_events db1 @
             [\<lparr>oe_id = gen, oe_order_id = oid, event_type = ty, old_status = a,
               new_status = b, changed_by = None, metadata = c, oe_created_at = now\<rparr>]\<rparr>"
  by (simp add: INSERT_order_events_def split: if_splits)

lemma update_unfold:
  assumes "production_orders_by_pk db pk = Some OLD"
  shows "update_production_orders_by_pk now gen pk sets db =
          (if \<not> production_orders_check (update_updated_at_column now (fold assign sets OLD))
           then Inl check_violation
           else if \<exists>p \<in> set (production_orders db).
                     po_id p \<noteq> pk \<and>
                     order_number p = order_number (update_updated_at_column now (fold assign sets OLD))
           then Inl unique_violation
           else
             (case log_order_status_change now gen UPDATE OLD
                     (update_updated_at_column now (fold assign sets OLD))
                     (db\<lparr>production_orders :=
                           map (\<lambda>p. if po_id p = pk
                                    then update_updated_at_column now (fold assign sets OLD) else p)
                             (production_orders db)\<rparr>) of
                Inl e \<Rightarrow> Inl e
              | Inr db' \<Rightarrow> Inr (Some (update_updated_at_column now (fold assign sets OLD)), db')))"
  using assms unfolding update_production_orders_by_pk_def Let_def by simp

lemma update_found:
  assumes "production_orders_by_pk db pk = Some OLD"
    and "update_production_orders_by_pk now gen pk sets db = Inr (res, db')"
  shows "res = Some (update_updated_at_column now (fold assign sets OLD)) \<and>
         production_orders db' =
           map (\<lambda>p. if po_id p = pk then update_updated_at_column now (fold assign sets OLD) else p)
             (production_orders db) \<and>
         resources db' = resources db \<and> resource_allocations db' = resource_allocations db \<and>
         (if po_status OLD \<noteq> po_status (fold assign sets OLD)
          then \<not> (\<exists>e \<in> set (order_events db). oe_id e = gen) \<and>
               order_events db' = order_events db @
                 [\<lparr>oe_id = gen, oe_order_id = pk, event_type = ''status_change'',
                   old_status = Some (po_status OLD),
                   new_status = Some (po_status (fold assign sets OLD)),
                   changed_by = None,
                   metadata = Some [(''order_number'', order_number (fold assign sets OLD)),
                                    (''product_name'', product_name (fold assign sets OLD))],
                   oe_created_at = now\<rparr>]
          else order_events db' = order_events db)"
proof -
  let ?NEW = "update_updated_at_column now (fold assign sets OLD)"
  let ?db1 = "db\<lparr>production_orders :=
                   map (\<lambda>p. if po_id p = pk then ?NEW else p) (production_orders db)\<rparr>"
  have id: "po_id OLD = pk"
    using assms(1) find_po_id [of pk "production_orders db" OLD]
    by (simp add: production_orders_by_pk_def)
  have "(case log_order_status_change now gen UPDATE OLD ?NEW ?db1 of
           Inl e \<Rightarrow> Inl e | Inr d \<Rightarrow> Inr (Some ?NEW, d)) = Inr (res, db')"
    using assms(2) unfolding update_unfold [OF assms(1)] by (simp split: if_splits)
  then have lg: "log_order_status_change now gen UPDATE OLD ?NEW ?db1 = Inr db'"
    and r: "res = Some ?NEW"
    by (simp_all split: sum.splits)
  have st: "po_status ?NEW = po_status (fold assign sets OLD)"
    and nm: "order_number ?NEW = order_number (fold assign sets OLD)"
    and pn: "product_name ?NEW = product_name (fold assign sets OLD)"
    and pid: "po_id ?NEW = pk"
    using id by (simp_all add: update_updated_at_column_def fold_assign_po_id)
  show ?thesis
  proof (cases "po_status OLD \<noteq> po_status (fold assign sets OLD)")
    case True
    then have "INSERT_order_events now gen pk ''status_change'' (Some (po_status OLD))
                 (Some (po_status (fold assign sets OLD)))
                 (Some [(''order_number'', order_number (fold assign sets OLD)),
                        (''product_name'', product_name (fold assign sets OLD))]) ?db1 = Inr db'"
      using lg st nm pn pid by (simp add: log_order_status_change_def)
    from INSERT_order_events_Inr [OF this] show ?thesis
      unfolding r using True by simp
  next
    case False
    then have "db' = ?db1"
      using lg st by (simp add: log_order_status_change_def)
    then show ?thesis
      unfolding r using False by simp
  qed
qed

lemma update_lookup:
  assumes "production_orders_by_pk db pk = Some OLD"
    and "update_production_orders_by_pk now gen pk sets db = Inr (res, db')"
  shows "production_orders_by_pk db' pk = res"
proof -
  let ?NEW = "update_updated_at_column now (fold assign sets OLD)"
  have "po_id ?NEW = pk"
    using assms(1) find_po_id [of pk "production_orders db" OLD]
    by (simp add: update_updated_at_column_def fold_assign_po_id production_orders_by_pk_def)
  then show ?thesis
    using update_found [OF assms] assms(1) find_replaced [of pk "production_orders db" OLD ?NEW]
    by (simp add: production_orders_by_pk_def)
qed

lemma update_not_found:
  "production_orders_by_pk db pk = None \<Longrightarrow>
   update_production_orders_by_pk now gen pk sets db = Inr (None, db)"
  by (simp add: update_production_orders_by_pk_def)

subsection \<open>The log only grows\<close>

lemma exec_order_events:
  assumes "exec now st db = Inr db'"
  shows "order_events db' = order_events db \<or>
         (\<exists>e. order_events db' = order_events db @ [e] \<and> oe_created_at e = now)"
proof (cases st)
  case (Insert_production_orders gen v)
  then show ?thesis
    using assms by (auto simp: INSERT_production_orders_def Let_def split: if_splits)
next
  case (Update_production_orders_by_pk gen pk sets)
  show ?thesis
  proof (cases "production_orders_by_pk db pk")
    case None
    then show ?thesis
      using assms Update_production_orders_by_pk by (simp add: update_not_found)
  next
    case (Some OLD)
    obtain res where "update_production_orders_by_pk now gen pk sets db = Inr (res, db')"
      using assms Update_production_orders_by_pk by (auto split: sum.splits)
    from update_found [OF Some this] show ?thesis
      by (auto split: if_splits)
  qed
next
  case (Insert_resources gen v)
  then show ?thesis
    using assms by (auto simp: INSERT_resources_def split: if_splits)
next
  case (Update_resource_status pk s)
  then show ?thesis
    using assms by (auto simp: UPDATE_RESOURCE_STATUS_def Let_def split: option.splits)
next
  case (Insert_resource_allocations gen v)
  then show ?thesis
    using assms by (auto simp: INSERT_resource_allocations_def Let_def split: if_splits)
qed

lemma step_order_events: "prefix (order_events db) (order_events (step now st db))"
proof (cases "exec now st db")
  case (Inl e)
  then show ?thesis by (simp add: step_def)
next
  case (Inr db')
  then show ?thesis
    using exec_order_events [OF Inr] by (auto simp: step_def)
qed

lemma run_order_events: "prefix (order_events db) (order_events (run stmts db))"
proof (induction stmts arbitrary: db)
  case Nil
  then show ?case by simp
next
  case (Cons a stmts)
  obtain now st where a: "a = (now, st)" by (cases a)
  have "prefix (order_events db) (order_events (step now st db))"
    by (rule step_order_events)
  also have "prefix \<dots> (order_events (run stmts (step now st db)))"
    by (rule Cons.IH)
  finally show ?case by (simp add: a)
qed

subsection \<open>Resources and sorted lists\<close>

lemma find_r_id: "find (\<lambda>r. r_id r = pk) xs = Some x \<Longrightarrow> r_id x = pk \<and> x \<in> set xs"
  by (induction xs) (auto split: if_splits)

lemma find_replaced_resource:
  "find (\<lambda>r. r_id r = pk) xs = Some OLD \<Longrightarrow> r_id NEW = pk \<Longrightarrow>
   find (\<lambda>r. r_id r = pk) (map (\<lambda>r. if r_id r = pk then NEW else r) xs) = Some NEW"
  by (induction xs) (auto split: if_splits)

lemma sorted_take_drop:
  "sorted_wrt R xs \<Longrightarrow> x \<in> set (take n xs) \<Longrightarrow> y \<in> set (drop n xs) \<Longrightarrow> R x y"
  using sorted_wrt_append [of R "take n xs" "drop n xs"] by simp

lemma desc_sorted:
  "sorted_wrt (\<lambda>a b. oe_created_at b \<le> oe_created_at a)
     (sort_key (\<lambda>e. - oe_created_at e) xs)"
  using sorted_sort_key [of "\<lambda>e. - oe_created_at e" xs]
  by (simp add: sorted_map)

subsection \<open>The replay along a run\<close>

lemma replay_snoc:
  "replay s (es @ [e]) =
     (case replay s es of
        None \<Rightarrow> None
      | Some s' \<Rightarrow> if old_status e = Some s' then new_status e else None)"
  by (induction es arbitrary: s) (auto split: option.splits)

lemma order_events_asc_sorted:
  "log_in_time_order db \<Longrightarrow> order_events_asc db k = order_events_of db k"
  unfolding order_events_asc_def order_events_of_def log_in_time_order_def
  by (intro sort_key_id_if_sorted sorted_filter)

lemma bex_image: "(\<exists>p \<in> A. f p = k) = (k \<in> f ` A)"
  by (auto simp: image_iff)

lemma events_refer_iff:
  "events_refer_to_orders db \<longleftrightarrow>
     (\<forall>e \<in> set (order_events db). oe_order_id e \<in> po_id ` set (production_orders db))"
  by (simp add: events_refer_to_orders_def bex_image)

lemma exec_update_cases:
  assumes "exec now (Update_production_orders_by_pk gen pk sets) db = Inr db'"
  obtains (absent) "production_orders_by_pk db pk = None" "db' = db"
  | (found) OLD res where "production_orders_by_pk db pk = Some OLD"
      "update_production_orders_by_pk now gen pk sets db = Inr (res, db')"
proof (cases "production_orders_by_pk db pk")
  case None
  have "db' = db"
    using assms None by (simp add: update_not_found)
  with None show ?thesis by (rule absent)
next
  case (Some OLD)
  have "\<exists>res. update_production_orders_by_pk now gen pk sets db = Inr (res, db')"
    using assms by (cases "update_production_orders_by_pk now gen pk sets db") auto
  then obtain res where "update_production_orders_by_pk now gen pk sets db = Inr (res, db')"
    by blast
  with Some show ?thesis by (rule found)
qed

lemma exec_other_tables:
  assumes "exec now st db = Inr db'"
    and "\<And>gen v. st \<noteq> Insert_production_orders gen v"
    and "\<And>gen pk sets. st \<noteq> Update_production_orders_by_pk gen pk sets"
  shows "production_orders db' = production_orders db \<and> order_events db' = order_events db"
  using assms
  by (cases st)
    (auto simp: INSERT_resources_def UPDATE_RESOURCE_STATUS_def INSERT_resource_allocations_def
       Let_def split: if_splits option.splits)

lemma exec_insert_order:
  assumes "exec now (Insert_production_orders gen v) db = Inr db'"
  shows "production_orders db' = production_orders db @ [new_production_order now gen v] \<and>
         order_events db' = order_events db \<and>
         (\<forall>p \<in> set (production_orders db). po_id p \<noteq> gen)"
  using assms
  by (auto simp: INSERT_production_orders_def Let_def new_production_order_def split: if_splits)

text \<open>
  The keys of the stored orders stay and the two invariants of the log are kept by every
  statement.
\<close>

lemma exec_keeps_log_invariants:
  assumes "exec now st db = Inr db'"
    and "events_refer_to_orders db" and "log_in_time_order db"
    and "\<forall>e \<in> set (order_events db). oe_created_at e \<le> now"
  shows "events_refer_to_orders db' \<and> log_in_time_order db' \<and>
         (\<forall>e \<in> set (order_events db'). oe_created_at e \<le> now)"
proof (cases st)
  case (Insert_production_orders gen v)
  then show ?thesis
    using exec_insert_order [of now gen v db db'] assms
    by (auto simp: events_refer_to_orders_def log_in_time_order_def)
next
  case (Update_production_orders_by_pk gen pk sets)
  with assms(1) have ex: "exec now (Update_production_orders_by_pk gen pk sets) db = Inr db'"
    by simp
  from ex show ?thesis
  proof (cases rule: exec_update_cases)
    case absent
    then show ?thesis using assms by simp
  next
    case (found OLD res)
    let ?NEW = "update_updated_at_column now (fold assign sets OLD)"
    note eff = update_found [OF found]
    have pid: "po_id ?NEW = pk" and mem: "OLD \<in> set (production_orders db)"
      using found(1) find_po_id [of pk "production_orders db" OLD]
      by (simp_all add: update_updated_at_column_def fold_assign_po_id production_orders_by_pk_def)
    have ids: "po_id ` set (production_orders db') = po_id ` set (production_orders db)"
    proof -
      have "map po_id (production_orders db') = map po_id (production_orders db)"
        using eff pid by (simp add: comp_def if_distrib [of po_id] cong: if_cong)
      then have "set (map po_id (production_orders db')) = set (map po_id (production_orders db))"
        by simp
      then show ?thesis by simp
    qed
    have pk_in: "pk \<in> po_id ` set (production_orders db')"
      unfolding ids using mem found(1) find_po_id [of pk "production_orders db" OLD]
      by (auto simp: production_orders_by_pk_def)
    have old_ref: "\<forall>e \<in> set (order_events db). oe_order_id e \<in> po_id ` set (production_orders db')"
      unfolding ids using assms(2) by (simp add: events_refer_iff)
    show ?thesis
    proof (cases "po_status OLD \<noteq> po_status (fold assign sets OLD)")
      case True
      then obtain e where e: "order_events db' = order_events db @ [e]"
        "oe_order_id e = pk" "oe_created_at e = now"
        using eff by auto
      have "events_refer_to_orders db'"
        using old_ref pk_in e by (simp add: events_refer_iff)
      moreover have "log_in_time_order db'"
        using assms(3,4) e by (auto simp: log_in_time_order_def sorted_append)
      moreover have "\<forall>e \<in> set (order_events db'). oe_created_at e \<le> now"
        using assms(4) e by auto
      ultimately show ?thesis by blast
    next
      case False
      then have e: "order_events db' = order_events db"
        using eff by auto
      have "events_refer_to_orders db'"
        using old_ref e by (simp add: events_refer_iff)
      then show ?thesis
        using assms(3,4) e by (simp add: log_in_time_order_def)
    qed
  qed
next
  case (Insert_resources gen v)
  then show ?thesis
    using exec_other_tables [OF assms(1)] assms
    by (simp add: events_refer_to_orders_def log_in_time_order_def)
next
  case (Update_resource_status pk s)
  then show ?thesis
    using exec_other_tables [OF assms(1)] assms
    by (simp add: events_refer_to_orders_def log_in_time_order_def)
next
  case (Insert_resource_allocations gen v)
  then show ?thesis
    using exec_other_tables [OF assms(1)] assms
    by (simp add: events_refer_to_orders_def log_in_time_order_def)
qed

lemma exec_keeps_replay:
  assumes "exec now st db = Inr db'"
    and "production_orders_by_pk db k = Some p"
    and "replay s0 (order_events_of db k) = Some (po_status p)"
  shows "\<exists>p'. production_orders_by_pk db' k = Some p' \<and>
           replay s0 (order_events_of db' k) = Some (po_status p')"
proof (cases st)
  case (Insert_production_orders gen v)
  then show ?thesis
    using exec_insert_order [of now gen v db db'] assms
    by (simp add: production_orders_by_pk_def find_snoc order_events_of_def)
next
  case (Update_production_orders_by_pk gen pk sets)
  with assms(1) have ex: "exec now (Update_production_orders_by_pk gen pk sets) db = Inr db'"
    by simp
  from ex show ?thesis
  proof (cases rule: exec_update_cases)
    case absent
    then show ?thesis using assms by simp
  next
    case (found OLD res)
    let ?NEW = "update_updated_at_column now (fold assign sets OLD)"
    note eff = update_found [OF found]
    have pid: "po_id ?NEW = pk"
      using found(1) find_po_id [of pk "production_orders db" OLD]
      by (simp add: update_updated_at_column_def fold_assign_po_id production_orders_by_pk_def)
    have st: "po_status ?NEW = po_status (fold assign sets OLD)"
      by (simp add: update_updated_at_column_def)
    show ?thesis
    proof (cases "pk = k")
      case True
      then have old: "OLD = p"
        using found(1) assms(2) by simp
      have look: "production_orders_by_pk db' k = Some ?NEW"
        using update_lookup [OF found] eff True by simp
      show ?thesis
      proof (cases "po_status OLD \<noteq> po_status (fold assign sets OLD)")
        case ch: True
        then have "\<exists>e. order_events db' = order_events db @ [e] \<and> oe_order_id e = k \<and>
                     old_status e = Some (po_status p) \<and> new_status e = Some (po_status ?NEW)"
          using eff old \<open>pk = k\<close> st by simp
        then obtain e where e: "order_events db' = order_events db @ [e]" "oe_order_id e = k"
          "old_status e = Some (po_status p)" "new_status e = Some (po_status ?NEW)"
          by blast
        have "order_events_of db' k = order_events_of db k @ [e]"
          using e by (simp add: order_events_of_def)
        then have "replay s0 (order_events_of db' k) = Some (po_status ?NEW)"
          using assms(3) e by (simp add: replay_snoc)
        then show ?thesis using look by blast
      next
        case same: False
        then have "order_events_of db' k = order_events_of db k"
          using eff by (simp add: order_events_of_def)
        then show ?thesis
          using look assms(3) same old st by simp
      qed
    next
      case False
      have look: "production_orders_by_pk db' k = production_orders_by_pk db k"
        using eff find_other [OF pid False, of "production_orders db"]
        by (simp add: production_orders_by_pk_def)
      have "order_events_of db' k = order_events_of db k"
        using eff False by (auto simp: order_events_of_def split: if_splits)
      then show ?thesis
        using look assms by simp
    qed
  qed
next
  case (Insert_resources gen v)
  then show ?thesis
    using exec_other_tables [OF assms(1)] assms
    by (simp add: production_orders_by_pk_def order_events_of_def)
next
  case (Update_resource_status pk s)
  then show ?thesis
    using exec_other_tables [OF assms(1)] assms
    by (simp add: production_orders_by_pk_def order_events_of_def)
next
  case (Insert_resource_allocations gen v)
  then show ?thesis
    using exec_other_tables [OF assms(1)] assms
    by (simp add: production_orders_by_pk_def order_events_of_def)
qed

lemma step_keeps_replay:
  assumes "events_refer_to_orders db" and "log_in_time_order db"
    and "\<forall>e \<in> set (order_events db). oe_created_at e \<le> now"
    and "\<exists>p. production_orders_by_pk db k = Some p \<and>
           replay s0 (order_events_of db k) = Some (po_status p)"
  shows "events_refer_to_orders (step now st db) \<and> log_in_time_order (step now st db) \<and>
         (\<forall>e \<in> set (order_events (step now st db)). oe_created_at e \<le> now) \<and>
         (\<exists>p. production_orders_by_pk (step now st db) k = Some p \<and>
            replay s0 (order_events_of (step now st db) k) = Some (po_status p))"
proof (cases "exec now st db")
  case (Inl e)
  then show ?thesis using assms by (simp add: step_def)
next
  case (Inr db')
  obtain p where p: "production_orders_by_pk db k = Some p"
    "replay s0 (order_events_of db k) = Some (po_status p)"
    using assms(4) by blast
  show ?thesis
    using exec_keeps_log_invariants [OF Inr assms(1,2,3)] exec_keeps_replay [OF Inr p] Inr
    by (simp add: step_def)
qed

lemma run_keeps_replay:
  assumes "events_refer_to_orders db" and "log_in_time_order db"
    and "sorted_wrt (\<le>) (map fst stmts)"
    and "\<forall>e \<in> set (order_events db). \<forall>t \<in> set (map fst stmts). oe_created_at e \<le> t"
    and "\<exists>p. production_orders_by_pk db k = Some p \<and>
           replay s0 (order_events_of db k) = Some (po_status p)"
  shows "log_in_time_order (run stmts db) \<and>
         (\<exists>p. production_orders_by_pk (run stmts db) k = Some p \<and>
            replay s0 (order_events_of (run stmts db) k) = Some (po_status p))"
  using assms
proof (induction stmts arbitrary: db)
  case Nil
  then show ?case by simp
next
  case (Cons a stmts)
  obtain now st where a: "a = (now, st)" by (cases a)
  have le: "\<forall>e \<in> set (order_events db). oe_created_at e \<le> now"
    using Cons.prems(4) a by force
  note s = step_keeps_replay [OF Cons.prems(1,2) le Cons.prems(5), of st]
  have later: "\<forall>t \<in> set (map fst stmts). now \<le> t"
    using Cons.prems(3) a by auto
  have "\<forall>e \<in> set (order_events (step now st db)). \<forall>t \<in> set (map fst stmts). oe_created_at e \<le> t"
    using s later by fastforce
  moreover have "sorted_wrt (\<le>) (map fst stmts)"
    using Cons.prems(3) by simp
  ultimately show ?case
    using Cons.IH [of "step now st db"] s a by simp
qed

lemma step_keeps_log:
  assumes "events_refer_to_orders db" and "log_in_time_order db"
    and "\<forall>e \<in> set (order_events db). oe_created_at e \<le> now"
  shows "events_refer_to_orders (step now st db) \<and> log_in_time_order (step now st db) \<and>
         (\<forall>e \<in> set (order_events (step now st db)). oe_created_at e \<le> now)"
proof (cases "exec now st db")
  case (Inl e)
  then show ?thesis using assms by (simp add: step_def)
next
  case (Inr db')
  show ?thesis
    using exec_keeps_log_invariants [OF Inr assms] Inr by (simp add: step_def)
qed

lemma run_keeps_log:
  assumes "events_refer_to_orders db" and "log_in_time_order db"
    and "sorted_wrt (\<le>) (map fst stmts)"
    and "\<forall>e \<in> set (order_events db). \<forall>t \<in> set (map fst stmts). oe_created_at e \<le> t"
    and "\<forall>e \<in> set (order_events db). oe_created_at e \<le> U"
    and "\<forall>t \<in> set (map fst stmts). t \<le> U"
  shows "events_refer_to_orders (run stmts db) \<and> log_in_time_order (run stmts db) \<and>
         (\<forall>e \<in> set (order_events (run stmts db)). oe_created_at e \<le> U)"
  using assms
proof (induction stmts arbitrary: db)
  case Nil
  then show ?case by simp
next
  case (Cons a stmts)
  obtain now st where a: "a = (now, st)" by (cases a)
  have le: "\<forall>e \<in> set (order_events db). oe_created_at e \<le> now"
    using Cons.prems(4) a by force
  note s = step_keeps_log [OF Cons.prems(1,2) le, of st]
  have later: "\<forall>t \<in> set (map fst stmts). now \<le> t"
    using Cons.prems(3) a by auto
  have "\<forall>e \<in> set (order_events (step now st db)). \<forall>t \<in> set (map fst stmts). oe_created_at e \<le> t"
    using s later by fastforce
  moreover have "sorted_wrt (\<le>) (map fst stmts)"
    using Cons.prems(3) by simp
  moreover have "now \<le> U"
    using Cons.prems(6) a by simp
  then have "\<forall>e \<in> set (order_events (step now st db)). oe_created_at e \<le> U"
    using s by fastforce
  moreover have "\<forall>t \<in> set (map fst stmts). t \<le> U"
    using Cons.prems(6) by simp
  ultimately show ?case
    using Cons.IH [of "step now st db"] s a by simp
qed

lemma empty_database_log:
  "events_refer_to_orders empty_database \<and> log_in_time_order empty_database \<and>
   order_events empty_database = []"
  by (simp add: events_refer_to_orders_def log_in_time_order_def empty_database_def)

subsection \<open>Replacing a row\<close>

lemma map_key_replaced:
  "key NEW = pk \<Longrightarrow> map key (map (\<lambda>p. if key p = pk then NEW else p) xs) = map key xs"
  by (induction xs) auto

lemma distinct_replaced:
  assumes "distinct (map key xs)" and "distinct (map f xs)"
    and "\<forall>p \<in> set xs. key p \<noteq> pk \<longrightarrow> f p \<noteq> f NEW"
  shows "distinct (map f (map (\<lambda>p. if key p = pk then NEW else p) xs))"
proof -
  define g where "g = (\<lambda>p. if key p = pk then NEW else p)"
  have "distinct (map f (map g xs))"
    using assms
  proof (induction xs)
    case Nil
    then show ?case by simp
  next
    case (Cons x xs)
    have IH: "distinct (map f (map g xs))"
      using Cons by simp
    have nin: "f (g x) \<notin> f ` g ` set xs"
    proof
      assume "f (g x) \<in> f ` g ` set xs"
      then obtain p where p: "p \<in> set xs" "f (g x) = f (g p)"
        by auto
      have kp: "key p \<noteq> key x"
        using Cons.prems(1) p(1) by (metis distinct.simps(2) imageI list.simps(9) list.set_map)
      have fp: "f p \<noteq> f x"
        using Cons.prems(2) p(1) by (metis distinct.simps(2) imageI list.simps(9) list.set_map)
      show False
      proof (cases "key x = pk")
        case True
        then have "g x = NEW" "g p = p" "f p \<noteq> f NEW"
          using kp p(1) Cons.prems(3) by (auto simp: g_def)
        then show False using p(2) by simp
      next
        case False
        then have gx: "g x = x" and nx: "f x \<noteq> f NEW"
          using Cons.prems(3) by (auto simp: g_def)
        show False
        proof (cases "key p = pk")
          case True
          then have "g p = NEW" by (simp add: g_def)
          then show False using p(2) gx nx by simp
        next
          case False
          then have "g p = p" by (simp add: g_def)
          then show False using p(2) gx fp by simp
        qed
      qed
    qed
    show ?case
      using nin IH by (simp add: image_image)
  qed
  then show ?thesis by (simp add: g_def)
qed

subsection \<open>The constraints are kept\<close>

text \<open>
  Every statement keeps the constraints of the schema: a database reached from the empty
  one by any statements meets them.
\<close>

lemma exec_keeps_valid:
  assumes "exec now st db = Inr db'" and "valid_database db"
  shows "valid_database db'"
proof (cases st)
  case (Insert_production_orders gen v)
  have "production_orders_check (new_production_order now gen v) \<and>
        (\<forall>p \<in> set (production_orders db).
           po_id p \<noteq> gen \<and> order_number p \<noteq> v_order_number v) \<and>
        db' = db\<lparr>production_orders := production_orders db @ [new_production_order now gen v]\<rparr>"
    using assms(1) Insert_production_orders
    by (auto simp: INSERT_production_orders_def Let_def new_production_order_def split: if_splits)
  then show ?thesis
    using assms(2) by (auto simp: valid_database_def new_production_order_def)
next
  case (Update_production_orders_by_pk gen pk sets)
  with assms(1) have ex: "exec now (Update_production_orders_by_pk gen pk sets) db = Inr db'"
    by simp
  from ex show ?thesis
  proof (cases rule: exec_update_cases)
    case absent
    then show ?thesis using assms by simp
  next
    case (found OLD res)
    let ?NEW = "update_updated_at_column now (fold assign sets OLD)"
    let ?xs = "map (\<lambda>p. if po_id p = pk then ?NEW else p) (production_orders db)"
    note eff = update_found [OF found]
    have pid: "po_id ?NEW = pk"
      using found(1) find_po_id [of pk "production_orders db" OLD]
      by (simp add: update_updated_at_column_def fold_assign_po_id production_orders_by_pk_def)
    have ok: "production_orders_check ?NEW \<and>
              \<not> (\<exists>p \<in> set (production_orders db). po_id p \<noteq> pk \<and> order_number p = order_number ?NEW)"
      using found(2) unfolding update_unfold [OF found(1)] by (simp split: if_splits)
    have orders: "production_orders db' = ?xs"
      using eff by simp
    have ids: "map po_id ?xs = map po_id (production_orders db)"
      using pid by (rule map_key_replaced)
    then have idset: "po_id ` set ?xs = po_id ` set (production_orders db)"
      by (metis list.set_map)
    have 1: "distinct (map po_id ?xs)"
      unfolding ids using assms(2) by (simp add: valid_database_def)
    have 2: "distinct (map order_number ?xs)"
      using assms(2) ok by (intro distinct_replaced) (auto simp: valid_database_def)
    have 3: "\<forall>p \<in> set ?xs. production_orders_check p"
      using assms(2) ok by (auto simp: valid_database_def)
    have 7: "\<forall>a \<in> set (resource_allocations db). ra_order_id a \<in> po_id ` set ?xs"
      unfolding idset using assms(2) by (simp add: valid_database_def bex_image)
    have 9: "\<forall>e \<in> set (order_events db). oe_order_id e \<in> po_id ` set ?xs"
      unfolding idset using assms(2) by (simp add: valid_database_def bex_image)
    have pk_in: "pk \<in> po_id ` set ?xs"
      unfolding idset using found(1) find_po_id [of pk "production_orders db" OLD]
      by (auto simp: production_orders_by_pk_def)
    have ev: "distinct (map oe_id (order_events db')) \<and>
              (\<forall>e \<in> set (order_events db'). oe_order_id e \<in> po_id ` set ?xs)"
    proof (cases "po_status OLD \<noteq> po_status (fold assign sets OLD)")
      case True
      then obtain e where e: "order_events db' = order_events db @ [e]"
        "oe_order_id e = pk" "oe_id e = gen" "\<not> (\<exists>e \<in> set (order_events db). oe_id e = gen)"
        using eff by auto
      then have "gen \<notin> oe_id ` set (order_events db)"
        by auto
      then show ?thesis
        using e 9 pk_in assms(2) by (simp add: valid_database_def)
    next
      case False
      then have "order_events db' = order_events db"
        using eff by simp
      then show ?thesis
        using 9 assms(2) by (simp add: valid_database_def)
    qed
    show ?thesis
      unfolding valid_database_def bex_image orders
      using 1 2 3 7 ev eff assms(2) by (simp add: valid_database_def bex_image)
  qed
next
  case (Insert_resources gen v)
  then show ?thesis
    using assms by (auto simp: INSERT_resources_def valid_database_def split: if_splits)
next
  case (Update_resource_status pk s)
  show ?thesis
  proof (cases "resources_by_pk db pk")
    case None
    then show ?thesis
      using assms Update_resource_status by (simp add: UPDATE_RESOURCE_STATUS_def)
  next
    case (Some OLD)
    let ?NEW = "OLD\<lparr>r_status := s, r_updated_at := now\<rparr>"
    let ?xs = "map (\<lambda>r. if r_id r = pk then ?NEW else r) (resources db)"
    have rid: "r_id ?NEW = pk"
      using Some find_r_id [of pk "resources db" OLD] by (simp add: resources_by_pk_def)
    have db': "db' = db\<lparr>resources := ?xs\<rparr>"
      using assms(1) Update_resource_status Some by (simp add: UPDATE_RESOURCE_STATUS_def Let_def)
    have ids: "map r_id ?xs = map r_id (resources db)"
      using rid by (rule map_key_replaced)
    then have idset: "r_id ` set ?xs = r_id ` set (resources db)"
      by (metis list.set_map)
    have 4: "distinct (map r_id ?xs)"
      unfolding ids using assms(2) by (simp add: valid_database_def)
    have 7: "\<forall>a \<in> set (resource_allocations db). ra_resource_id a \<in> r_id ` set ?xs"
      unfolding idset using assms(2) by (simp add: valid_database_def bex_image)
    show ?thesis
      unfolding valid_database_def bex_image db'
      using 4 7 assms(2) by (simp add: valid_database_def bex_image)
  qed
next
  case (Insert_resource_allocations gen v)
  let ?NEW = "new_resource_allocation now gen v"
  have "\<not> (\<exists>a \<in> set (resource_allocations db).
           ra_id a = gen \<or>
           (ra_order_id a = v_order_id v \<and> ra_resource_id a = v_resource_id v \<and>
            start_time a = v_start_time v)) \<and>
        (\<exists>p \<in> set (production_orders db). po_id p = v_order_id v) \<and>
        (\<exists>r \<in> set (resources db). r_id r = v_resource_id v) \<and>
        db' = db\<lparr>resource_allocations := resource_allocations db @ [?NEW]\<rparr>"
    using assms(1) Insert_resource_allocations
    by (auto simp: INSERT_resource_allocations_def Let_def new_resource_allocation_def
          split: if_splits)
  then show ?thesis
    using assms(2) by (auto simp: valid_database_def new_resource_allocation_def)
qed

lemma step_keeps_valid: "valid_database db \<Longrightarrow> valid_database (step now st db)"
  by (cases "exec now st db") (auto simp: step_def dest: exec_keeps_valid)

lemma run_keeps_valid: "valid_database db \<Longrightarrow> valid_database (run stmts db)"
  by (induction stmts arbitrary: db) (auto simp: step_keeps_valid)

lemma reachable_valid: "valid_database (run stmts empty_database)"
  by (rule run_keeps_valid) (simp add: valid_database_def empty_database_def)

section \<open>Creating orders\<close>

text \<open>
  Claim C5. \<open>CreateOrder\<close> is the insert into \<open>production_orders\<close>. It fails with the
  check violation (the specification's \<open>ValidationError\<close>) when the quantity is not
  positive or the priority lies outside 1 to 5; with valid quantity and priority it fails
  with the unique violation (\<open>DuplicateKey\<close>) when a stored order has the same
  \<open>order_number\<close>, and an existing \<open>order_number\<close> makes it fail in any case (the checks
  are tested before the unique index). Whenever it fails, the database is what it was:
  no order is created.
\<close>

theorem CreateOrder_rejects:
  "(v_quantity v \<le> 0 \<or> (\<exists>p. v_priority v = Some p \<and> (p < 1 \<or> 5 < p)) \<longrightarrow>
      INSERT_production_orders now gen v db = Inl check_violation) \<and>
   (0 < v_quantity v \<and> (\<forall>p. v_priority v = Some p \<longrightarrow> 1 \<le> p \<and> p \<le> 5) \<and>
    (\<exists>p \<in> set (production_orders db). order_number p = v_order_number v) \<longrightarrow>
      INSERT_production_orders now gen v db = Inl unique_violation) \<and>
   ((\<exists>p \<in> set (production_orders db). order_number p = v_order_number v) \<longrightarrow>
      (\<exists>e. INSERT_production_orders now gen v db = Inl e)) \<and>
   (\<forall>e. INSERT_production_orders now gen v db = Inl e \<longrightarrow>
      step now (Insert_production_orders gen v) db = db)"
  by (auto simp: INSERT_production_orders_def new_production_order_def production_orders_check_def
        step_def Let_def split: option.splits)

theorem CreateOrder_rejects_witness:
  "v_quantity (PO_new\<lparr>v_quantity := 0\<rparr>) \<le> 0 \<and>
   INSERT_production_orders 1 2 (PO_new\<lparr>v_quantity := 0\<rparr>) sample_database = Inl check_violation \<and>
   0 < v_quantity PO_2024_001 \<and>
   (\<exists>p \<in> set (production_orders sample_database). order_number p = v_order_number PO_2024_001) \<and>
   INSERT_production_orders 1 2 PO_2024_001 sample_database = Inl unique_violation \<and>
   step 1 (Insert_production_orders 2 PO_2024_001) sample_database = sample_database"
  using CreateOrder_rejects [where v = "PO_new\<lparr>v_quantity := 0\<rparr>" and now = 1 and gen = 2 and db = sample_database]
    CreateOrder_rejects [where v = PO_2024_001 and now = 1 and gen = 2 and db = sample_database]
  by (simp add: model_defs)

text \<open>
  Claim C8. A valid \<open>CreateOrder\<close> request (no status given, positive quantity, priority
  within 1 to 5, a new \<open>order_number\<close>, a fresh key) on a database that meets its
  constraints succeeds, and \<open>GetOrderById\<close> on the new key then returns the order with
  status \<open>pending\<close>, \<open>created_at\<close> equal to \<open>updated_at\<close>, and no events.
\<close>

theorem CreateOrder_GetOrder:
  assumes "valid_database db"
    and "v_status v = None"
    and "0 < v_quantity v"
    and "\<forall>p. v_priority v = Some p \<longrightarrow> 1 \<le> p \<and> p \<le> 5"
    and "\<forall>p \<in> set (production_orders db). po_id p \<noteq> gen \<and> order_number p \<noteq> v_order_number v"
  shows "\<exists>db' d. INSERT_production_orders now gen v db = Inr db' \<and>
           GET_ORDER_BY_ID db' gen = Some d \<and>
           po_id (od_order d) = gen \<and>
           po_status (od_order d) = pending \<and>
           po_created_at (od_order d) = po_updated_at (od_order d) \<and>
           od_order_events d = [] \<and> order_events_of db' gen = []"
proof -
  let ?NEW = "new_production_order now gen v"
  let ?db' = "db\<lparr>production_orders := production_orders db @ [?NEW]\<rparr>"
  have chk: "production_orders_check ?NEW"
    using assms(3,4)
    by (auto simp: production_orders_check_def new_production_order_def split: option.splits)
  have ins: "INSERT_production_orders now gen v db = Inr ?db'"
    using chk assms(5) by (auto simp: INSERT_production_orders_def Let_def new_production_order_def)
  have "find (\<lambda>p. po_id p = gen) (production_orders db) = None"
    using assms(5) by (simp add: find_None_iff)
  then have look: "production_orders_by_pk ?db' gen = Some ?NEW"
    by (simp add: production_orders_by_pk_def find_snoc new_production_order_def)
  have "\<forall>e \<in> set (order_events db). oe_order_id e \<noteq> gen"
    using assms(1,5) unfolding valid_database_def by metis
  then have noev: "order_events_of ?db' gen = []"
    by (auto simp: order_events_of_def filter_empty_conv)
  show ?thesis
    using ins look noev assms(2)
    by (simp add: GET_ORDER_BY_ID_def order_events_desc_limit_def new_production_order_def)
qed

theorem CreateOrder_GetOrder_witness:
  "valid_database sample_database \<and> v_status PO_new = None \<and> 0 < v_quantity PO_new \<and>
   list_all (\<lambda>p. po_id p \<noteq> 2 \<and> order_number p \<noteq> v_order_number PO_new)
     (production_orders sample_database) \<and>
   (\<exists>db' d. INSERT_production_orders 1 2 PO_new sample_database = Inr db' \<and>
      GET_ORDER_BY_ID db' 2 = Some d \<and> po_status (od_order d) = pending \<and>
      po_created_at (od_order d) = po_updated_at (od_order d) \<and> od_order_events d = [])"
proof -
  have v: "valid_database sample_database"
    by (simp add: model_defs)
  have s: "v_status PO_new = None" and q: "0 < v_quantity PO_new"
    and p: "\<forall>p. v_priority PO_new = Some p \<longrightarrow> 1 \<le> p \<and> p \<le> 5"
    by (simp_all add: PO_new_def)
  have f: "\<forall>p \<in> set (production_orders sample_database).
      po_id p \<noteq> 2 \<and> order_number p \<noteq> v_order_number PO_new"
    by (simp add: model_defs)
  show ?thesis
    using v s q f CreateOrder_GetOrder [OF v s q p f, of 1] by (simp add: list_all_iff) blast
qed

section \<open>Status changes and the event log\<close>

text \<open>
  Claim C10. An update of an order that leaves the status as it was (new notes, a new
  schedule, the same status set again) appends no event: the \<open>order_events\<close> table after
  the update is the table before it, and so is the order's own log. The row is still
  rewritten, with \<open>updated_at\<close> set to the time of the update.
\<close>

theorem same_status_update_logs_nothing:
  assumes "production_orders_by_pk db pk = Some OLD"
    and "update_production_orders_by_pk now gen pk sets db = Inr (res, db')"
    and "po_status (fold assign sets OLD) = po_status OLD"
  shows "order_events db' = order_events db \<and>
         order_events_of db' pk = order_events_of db pk \<and>
         (\<exists>NEW. res = Some NEW \<and> production_orders_by_pk db' pk = Some NEW \<and>
            po_status NEW = po_status OLD \<and> po_updated_at NEW = now)"
  using update_found [OF assms(1,2)] update_lookup [OF assms(1,2)] assms(3)
  by (simp add: order_events_of_def update_updated_at_column_def)

theorem same_status_update_logs_nothing_witness:
  "map_option po_status (production_orders_by_pk sample_database 1) = Some in_progress \<and>
   (\<exists>res db'. update_production_orders_by_pk 7 8 1
        [Set_notes (Some ''checked''), Set_scheduled_end None, Set_status in_progress]
        sample_database = Inr (res, db') \<and>
      order_events db' = order_events sample_database \<and>
      map_option po_status res = Some in_progress \<and> map_option po_updated_at res = Some 7)"
proof -
  let ?sets = "[Set_notes (Some ''checked''), Set_scheduled_end None, Set_status in_progress]"
  have "\<exists>OLD. production_orders_by_pk sample_database 1 = Some OLD \<and> po_status OLD = in_progress"
    by (simp add: model_defs)
  then obtain OLD where old: "production_orders_by_pk sample_database 1 = Some OLD"
    and st: "po_status OLD = in_progress"
    by blast
  have "\<exists>res db'. update_production_orders_by_pk 7 8 1 ?sets sample_database = Inr (res, db')"
    by (simp add: model_defs Let_def)
  then obtain res db' where
    upd: "update_production_orders_by_pk 7 8 1 ?sets sample_database = Inr (res, db')"
    by blast
  have same: "po_status (fold assign ?sets OLD) = po_status OLD"
    using st by simp
  have "order_events db' = order_events sample_database \<and>
        (\<exists>NEW. res = Some NEW \<and> po_status NEW = po_status OLD \<and> po_updated_at NEW = 7)"
    using same_status_update_logs_nothing [OF old upd same] by blast
  then show ?thesis
    using old st upd by auto
qed

text \<open>
  Claim C4. An accepted update that changes an order's status appends exactly one event
  to the log, recording the old and the new status, in the same statement that rewrites
  the row: the result holds both, and when the event cannot be inserted (its key is
  taken) the statement fails and the order keeps its status. No statement mutates or
  deletes an event: the log before a statement, or before any sequence of statements,
  is a prefix of the log after it. (The schema's \<open>ON DELETE CASCADE\<close> would remove an
  order's events with the order; no statement of the repository deletes an order.)
\<close>

theorem status_change_logs_one_event:
  "(production_orders_by_pk db pk = Some OLD \<and>
    update_production_orders_by_pk now gen pk sets db = Inr (res, db') \<and>
    po_status (fold assign sets OLD) \<noteq> po_status OLD \<longrightarrow>
      (\<exists>NEW. res = Some NEW \<and> production_orders_by_pk db' pk = Some NEW \<and>
         po_status NEW = po_status (fold assign sets OLD) \<and>
         order_events db' = order_events db @
           [\<lparr>oe_id = gen, oe_order_id = pk, event_type = ''status_change'',
             old_status = Some (po_status OLD), new_status = Some (po_status NEW),
             changed_by = None,
             metadata = Some [(''order_number'', order_number NEW),
                              (''product_name'', product_name NEW)],
             oe_created_at = now\<rparr>])) \<and>
   (production_orders_by_pk db pk = Some OLD \<and>
    po_status (fold assign sets OLD) \<noteq> po_status OLD \<and>
    (\<exists>e \<in> set (order_events db). oe_id e = gen) \<longrightarrow>
      (\<exists>e. update_production_orders_by_pk now gen pk sets db = Inl e) \<and>
      step now (Update_production_orders_by_pk gen pk sets) db = db) \<and>
   prefix (order_events db) (order_events (step now st db)) \<and>
   prefix (order_events db) (order_events (run stmts db))"
proof (intro conjI impI)
  assume a: "production_orders_by_pk db pk = Some OLD \<and>
    update_production_orders_by_pk now gen pk sets db = Inr (res, db') \<and>
    po_status (fold assign sets OLD) \<noteq> po_status OLD"
  then have old: "production_orders_by_pk db pk = Some OLD"
    and upd: "update_production_orders_by_pk now gen pk sets db = Inr (res, db')"
    and ch: "po_status OLD \<noteq> po_status (fold assign sets OLD)"
    by auto
  show "\<exists>NEW. res = Some NEW \<and> production_orders_by_pk db' pk = Some NEW \<and>
         po_status NEW = po_status (fold assign sets OLD) \<and>
         order_events db' = order_events db @
           [\<lparr>oe_id = gen, oe_order_id = pk, event_type = ''status_change'',
             old_status = Some (po_status OLD), new_status = Some (po_status NEW),
             changed_by = None,
             metadata = Some [(''order_number'', order_number NEW),
                              (''product_name'', product_name NEW)],
             oe_created_at = now\<rparr>]"
    using update_found [OF old upd] update_lookup [OF old upd] ch
    by (simp add: update_updated_at_column_def)
next
  assume a: "production_orders_by_pk db pk = Some OLD \<and>
    po_status (fold assign sets OLD) \<noteq> po_status OLD \<and>
    (\<exists>e \<in> set (order_events db). oe_id e = gen)"
  then have old: "production_orders_by_pk db pk = Some OLD"
    and ch: "po_status OLD \<noteq> po_status (fold assign sets OLD)"
    and taken: "\<exists>e \<in> set (order_events db). oe_id e = gen"
    by auto
  have no: "update_production_orders_by_pk now gen pk sets db \<noteq> Inr (res', d)" for res' d
    using update_found [OF old, of now gen sets res' d] ch taken by auto
  then obtain e where e: "update_production_orders_by_pk now gen pk sets db = Inl e"
    by (cases "update_production_orders_by_pk now gen pk sets db") auto
  then show "\<exists>e. update_production_orders_by_pk now gen pk sets db = Inl e"
    by blast
  show "step now (Update_production_orders_by_pk gen pk sets) db = db"
    using e by (simp add: step_def)
next
  show "prefix (order_events db) (order_events (step now st db))"
    by (rule step_order_events)
next
  show "prefix (order_events db) (order_events (run stmts db))"
    by (rule run_order_events)
qed

theorem status_change_logs_one_event_witness:
  "map_option po_status (production_orders_by_pk sample_database 1) = Some in_progress \<and>
   (\<exists>res db'.
      update_production_orders_by_pk 7 8 1 [Set_status completed] sample_database = Inr (res, db') \<and>
      map_option po_status res = Some completed \<and>
      map (\<lambda>e. (oe_id e, oe_order_id e, old_status e, new_status e, oe_created_at e))
        (order_events db') = [(8, 1, Some in_progress, Some completed, 7)] \<and>
      (\<exists>e \<in> set (order_events db'). oe_id e = 8) \<and>
      map_option po_status (production_orders_by_pk db' 3) = Some completed \<and>
      step 9 (Update_production_orders_by_pk 8 3 [Set_status pending]) db' = db')"
proof -
  let ?sets = "[Set_status completed]"
  have "\<exists>OLD. production_orders_by_pk sample_database 1 = Some OLD \<and> po_status OLD = in_progress"
    by (simp add: model_defs)
  then obtain OLD where old: "production_orders_by_pk sample_database 1 = Some OLD"
    and st: "po_status OLD = in_progress"
    by blast
  have "\<exists>res db'. update_production_orders_by_pk 7 8 1 ?sets sample_database = Inr (res, db') \<and>
          map_option po_status (production_orders_by_pk db' 3) = Some completed"
    by (simp add: model_defs Let_def)
  then obtain res db' where
    upd: "update_production_orders_by_pk 7 8 1 ?sets sample_database = Inr (res, db')"
    and "map_option po_status (production_orders_by_pk db' 3) = Some completed"
    by blast
  then obtain OLD3 where old3: "production_orders_by_pk db' 3 = Some OLD3"
    and st3: "po_status OLD3 = completed"
    by auto
  have ch: "po_status (fold assign ?sets OLD) \<noteq> po_status OLD"
    using st by simp
  have ch3: "po_status (fold assign [Set_status pending] OLD3) \<noteq> po_status OLD3"
    using st3 by simp
  have "\<exists>NEW. res = Some NEW \<and> production_orders_by_pk db' 1 = Some NEW \<and>
         po_status NEW = po_status (fold assign ?sets OLD) \<and>
         order_events db' = order_events sample_database @
           [\<lparr>oe_id = 8, oe_order_id = 1, event_type = ''status_change'',
             old_status = Some (po_status OLD), new_status = Some (po_status NEW),
             changed_by = None,
             metadata = Some [(''order_number'', order_number NEW),
                              (''product_name'', product_name NEW)],
             oe_created_at = 7\<rparr>]"
    by (rule status_change_logs_one_event
          [where db = sample_database and pk = 1 and OLD = OLD and now = 7 and gen = 8
             and sets = ?sets and res = res and db' = db',
           THEN conjunct1, THEN mp, OF conjI [OF old conjI [OF upd ch]]])
  then obtain NEW where new: "res = Some NEW" "po_status NEW = completed"
    and ev: "order_events db' = order_events sample_database @
           [\<lparr>oe_id = 8, oe_order_id = 1, event_type = ''status_change'',
             old_status = Some (po_status OLD), new_status = Some (po_status NEW),
             changed_by = None,
             metadata = Some [(''order_number'', order_number NEW),
                              (''product_name'', product_name NEW)],
             oe_created_at = 7\<rparr>]"
    by auto
  have evs: "map (\<lambda>e. (oe_id e, oe_order_id e, old_status e, new_status e, oe_created_at e))
        (order_events db') = [(8, 1, Some in_progress, Some completed, 7)]"
    unfolding ev using st new by (simp add: model_defs)
  then have taken: "\<exists>e \<in> set (order_events db'). oe_id e = 8"
    by auto
  have "(\<exists>e. update_production_orders_by_pk 9 8 3 [Set_status pending] db' = Inl e) \<and>
        step 9 (Update_production_orders_by_pk 8 3 [Set_status pending]) db' = db'"
    by (rule status_change_logs_one_event
          [where db = db' and pk = 3 and OLD = OLD3 and now = 9 and gen = 8
             and sets = "[Set_status pending]",
           THEN conjunct2, THEN conjunct1, THEN mp, OF conjI [OF old3 conjI [OF ch3 taken]]])
  then show ?thesis
    using old st upd new evs taken old3 st3 by auto
qed

text \<open>
  Claim C1, as the code has it. The mutation \<open>UpdateOrderStatus\<close> on an existing order
  succeeds for every requested status, whatever the current one: the row gets the
  requested status and the time of the update, and no request is refused as an invalid
  transition. (The database is taken to meet its constraints and the key drawn for a
  possible event to be fresh.) The transition table shows only in the quick action
  buttons of the orders list, which offer exactly pending to scheduled, scheduled to in
  progress and in progress to completed, each one in the table, and nothing on a
  completed or cancelled order.
\<close>

theorem ChangeStatus_accepts_every_status:
  assumes "valid_database db"
    and "production_orders_by_pk db pk = Some OLD"
    and "\<not> (\<exists>e \<in> set (order_events db). oe_id e = gen)"
  shows "(\<exists>db'. UPDATE_ORDER_STATUS now gen pk s db =
             Inr (Some (OLD\<lparr>po_status := s, po_updated_at := now\<rparr>), db') \<and>
           production_orders_by_pk db' pk = Some (OLD\<lparr>po_status := s, po_updated_at := now\<rparr>) \<and>
           OrdersList_handleStatusChange now gen pk s db = db') \<and>
         (\<forall>a b. quick_status_action a = Some b \<longrightarrow> spec_allowed_transition a b) \<and>
         (\<forall>a b. quick_status_action a = Some b \<longleftrightarrow>
            (a, b) \<in> set [(pending, scheduled), (scheduled, in_progress),
                           (in_progress, completed)])"
proof (intro conjI)
  let ?NEW = "OLD\<lparr>po_status := s, po_updated_at := now\<rparr>"
  let ?db1 = "db\<lparr>production_orders :=
                   map (\<lambda>p. if po_id p = pk then ?NEW else p) (production_orders db)\<rparr>"
  have mem: "po_id OLD = pk \<and> OLD \<in> set (production_orders db)"
    using assms(2) find_po_id [of pk "production_orders db" OLD]
    by (simp add: production_orders_by_pk_def)
  have chk: "production_orders_check ?NEW"
    using assms(1) mem by (simp add: valid_database_def production_orders_check_def)
  have "inj_on order_number (set (production_orders db))"
    using assms(1) by (simp add: valid_database_def distinct_map)
  then have uniq: "\<not> (\<exists>p \<in> set (production_orders db).
                       po_id p \<noteq> pk \<and> order_number p = order_number ?NEW)"
    using mem by (auto dest: inj_onD)
  have "?NEW \<in> set (production_orders ?db1)"
    using mem by (force simp: image_iff)
  then have ex: "\<exists>p \<in> set (production_orders ?db1). po_id p = pk"
    using mem by (intro bexI [of _ ?NEW]) simp_all
  have "\<exists>db'. log_order_status_change now gen UPDATE OLD ?NEW ?db1 = Inr db'"
    using assms(3) ex mem by (simp add: log_order_status_change_def INSERT_order_events_def)
  then obtain db' where lg: "log_order_status_change now gen UPDATE OLD ?NEW ?db1 = Inr db'"
    by blast
  have eq: "update_updated_at_column now (fold assign [Set_status s] OLD) = ?NEW"
    by (simp add: update_updated_at_column_def)
  have upd: "UPDATE_ORDER_STATUS now gen pk s db = Inr (Some ?NEW, db')"
    unfolding UPDATE_ORDER_STATUS_def update_unfold [OF assms(2)] eq
    using chk uniq lg by simp
  then have "production_orders_by_pk db' pk = Some ?NEW"
    using update_lookup [OF assms(2), of now gen "[Set_status s]" "Some ?NEW" db']
    by (simp add: UPDATE_ORDER_STATUS_def)
  then show "\<exists>db'. UPDATE_ORDER_STATUS now gen pk s db = Inr (Some ?NEW, db') \<and>
           production_orders_by_pk db' pk = Some ?NEW \<and>
           OrdersList_handleStatusChange now gen pk s db = db'"
    using upd by (simp add: OrdersList_handleStatusChange_def)
next
  show "\<forall>a b. quick_status_action a = Some b \<longrightarrow> spec_allowed_transition a b"
  proof (intro allI impI)
    fix a b
    assume "quick_status_action a = Some b"
    then show "spec_allowed_transition a b"
      by (cases a) (auto simp: spec_allowed_transition_def spec_allowed_transitions_def)
  qed
next
  show "\<forall>a b. quick_status_action a = Some b \<longleftrightarrow>
            (a, b) \<in> set [(pending, scheduled), (scheduled, in_progress),
                           (in_progress, completed)]"
  proof (intro allI)
    fix a b
    show "quick_status_action a = Some b \<longleftrightarrow>
            (a, b) \<in> set [(pending, scheduled), (scheduled, in_progress),
                           (in_progress, completed)]"
      by (cases a; cases b) simp_all
  qed
qed

theorem ChangeStatus_accepts_every_status_witness:
  "valid_database sample_database \<and>
   map_option po_status (production_orders_by_pk sample_database 3) = Some completed \<and>
   \<not> spec_allowed_transition completed completed \<and>
   (\<exists>r db'. UPDATE_ORDER_STATUS 7 8 3 completed sample_database = Inr (Some r, db') \<and>
      po_status r = completed \<and> po_updated_at r = 7) \<and>
   quick_status_action pending = Some scheduled \<and> spec_allowed_transition pending scheduled \<and>
   quick_status_action completed = None \<and> quick_status_action cancelled = None"
proof -
  have v: "valid_database sample_database"
    by (simp add: model_defs)
  have "\<exists>OLD. production_orders_by_pk sample_database 3 = Some OLD \<and> po_status OLD = completed"
    by (simp add: model_defs)
  then obtain OLD where old: "production_orders_by_pk sample_database 3 = Some OLD"
    and st: "po_status OLD = completed"
    by blast
  have fresh: "\<not> (\<exists>e \<in> set (order_events sample_database). oe_id e = 8)"
    by (simp add: model_defs)
  have q: "quick_status_action pending = Some scheduled"
    by simp
  have n: "\<not> spec_allowed_transition completed completed"
    by (simp add: spec_allowed_transition_def spec_allowed_transitions_def)
  show ?thesis
    using v old st q n ChangeStatus_accepts_every_status [OF v old fresh, of 7 completed]
    by auto
qed

theorem ChangeStatus_counterexample:
  "map_option po_status (production_orders_by_pk sample_database 3) = Some completed \<and>
   \<not> spec_allowed_transition completed pending \<and>
   map_sum id (map_option po_status \<circ> fst) (UPDATE_ORDER_STATUS 7 8 3 pending sample_database) =
     Inr (Some pending) \<and>
   map_option po_status
     (production_orders_by_pk (OrdersList_handleStatusChange 7 8 3 pending sample_database) 3) =
     Some pending"
  by (simp add: model_defs Let_def)

section \<open>Resources and allocations\<close>

text \<open>
  Claim C7, as the code has it. The mutation \<open>UpdateResourceStatus\<close> sets any status on an
  existing resource from any status, with no exception: the resource gets the requested
  status and the time of the update, the allocations and the orders stay as they are,
  and no request is refused because the resource is busy. The mutation has no force
  argument.
\<close>

theorem SetResourceStatus_always_accepted:
  assumes "resources_by_pk db pk = Some OLD"
  shows "\<exists>db'. UPDATE_RESOURCE_STATUS now pk s db =
            Inr (Some (OLD\<lparr>r_status := s, r_updated_at := now\<rparr>), db') \<and>
          resources_by_pk db' pk = Some (OLD\<lparr>r_status := s, r_updated_at := now\<rparr>) \<and>
          resource_allocations db' = resource_allocations db \<and>
          production_orders db' = production_orders db \<and>
          spec_resource_busy db' pk = spec_resource_busy db pk"
proof -
  let ?NEW = "OLD\<lparr>r_status := s, r_updated_at := now\<rparr>"
  have "r_id ?NEW = pk"
    using assms find_r_id [of pk "resources db" OLD] by (simp add: resources_by_pk_def)
  then have "find (\<lambda>r. r_id r = pk) (map (\<lambda>r. if r_id r = pk then ?NEW else r) (resources db)) =
             Some ?NEW"
    using assms find_replaced_resource [of pk "resources db" OLD ?NEW]
    by (simp add: resources_by_pk_def)
  then show ?thesis
    using assms
    by (simp add: UPDATE_RESOURCE_STATUS_def Let_def resources_by_pk_def spec_resource_busy_def)
qed

theorem SetResourceStatus_always_accepted_witness:
  "map_option r_status (resources_by_pk busy_database 5) = Some in_use \<and>
   spec_resource_busy busy_database 5 \<and>
   (\<exists>r db'. UPDATE_RESOURCE_STATUS 7 5 unavailable busy_database = Inr (Some r, db') \<and>
      r_status r = unavailable \<and> r_updated_at r = 7 \<and>
      resource_allocations db' = resource_allocations busy_database)"
proof -
  have "\<exists>OLD. resources_by_pk busy_database 5 = Some OLD \<and> r_status OLD = in_use"
    by (simp add: model_defs)
  then obtain OLD where old: "resources_by_pk busy_database 5 = Some OLD"
    and st: "r_status OLD = in_use"
    by blast
  have busy: "spec_resource_busy busy_database 5"
    by (simp add: model_defs)
  show ?thesis
    using old st busy SetResourceStatus_always_accepted [OF old, of 7 unavailable]
    by auto
qed

theorem SetResourceStatus_counterexample:
  "map_option r_status (resources_by_pk busy_database 5) = Some in_use \<and>
   spec_resource_busy busy_database 5 \<and>
   map_sum id (map_option r_status \<circ> fst) (UPDATE_RESOURCE_STATUS 7 5 maintenance busy_database) =
     Inr (Some maintenance) \<and>
   maintenance \<in> set (resource_quick_actions in_use) \<and>
   map_option r_status
     (resources_by_pk (ResourcesList_handleStatusChange 7 5 maintenance busy_database) 5) =
     Some maintenance"
  by (simp add: model_defs Let_def)




text \<open>
  Claim C3, as the code has it. An insert into \<open>resource_allocations\<close> succeeds exactly
  when its quantity fits \<open>DECIMAL(10,2)\<close> (fewer than eight digits before the point), its
  key and its (order, resource, start time) triple are new, and the order and the
  resource exist; a quantity out of that range is refused as a numeric value out of
  range. It makes no capacity check: within the range of the column, whether it succeeds
  does not depend on the quantity, nor on the capacity of any resource; it is never
  refused for exceeding a capacity, and it raises the load of its resource by its
  quantity at every instant of its interval, so the load of a resource may exceed the
  resource's capacity.
\<close>

theorem Allocate_ignores_capacity:
  "((\<exists>db'. INSERT_resource_allocations now gen v db = Inr db') \<longleftrightarrow>
      decimal_10_2 (v_allocated_quantity v) \<and>
      \<not> (\<exists>a \<in> set (resource_allocations db).
            ra_id a = gen \<or>
            (ra_order_id a = v_order_id v \<and> ra_resource_id a = v_resource_id v \<and>
             start_time a = v_start_time v)) \<and>
      (\<exists>p \<in> set (production_orders db). po_id p = v_order_id v) \<and>
      (\<exists>r \<in> set (resources db). r_id r = v_resource_id v)) \<and>
   (\<not> decimal_10_2 (v_allocated_quantity v) \<longrightarrow>
      INSERT_resource_allocations now gen v db = Inl numeric_value_out_of_range) \<and>
   (INSERT_resource_allocations now gen v db = Inr db' \<longrightarrow>
      resource_allocations db' = resource_allocations db @ [new_resource_allocation now gen v] \<and>
      resources db' = resources db \<and>
      load_at db' rid t =
        load_at db rid t +
        (if v_resource_id v = rid \<and> v_start_time v \<le> t \<and>
            (case v_end_time v of None \<Rightarrow> True | Some e \<Rightarrow> t < e)
         then v_allocated_quantity v else 0) \<and>
      (decimal_10_2 q \<longrightarrow>
         (\<exists>d. INSERT_resource_allocations now gen (v\<lparr>v_allocated_quantity := q\<rparr>) db = Inr d)) \<and>
      (\<exists>d. INSERT_resource_allocations now gen v
              (db\<lparr>resources := map (\<lambda>r. r\<lparr>capacity := c\<rparr>) (resources db)\<rparr>) = Inr d))"
proof -
  have ids: "(\<exists>r \<in> set (map (\<lambda>r. r\<lparr>capacity := c\<rparr>) (resources db)). r_id r = k) =
             (\<exists>r \<in> set (resources db). r_id r = k)" for k
    by auto
  show ?thesis
    unfolding INSERT_resource_allocations_def new_resource_allocation_def Let_def
    using ids
    by (auto simp: load_at_def interval_contains_def split: if_splits)
qed

theorem Allocate_ignores_capacity_witness:
  "map_option capacity (resources_by_pk sample_database 5) = Some (Some 800) \<and>
   INSERT_resource_allocations 0 9 (sample_allocation 1 5) sample_database = Inr allocated_database \<and>
   load_at sample_database 5 0 = 0 \<and>
   load_at allocated_database 5 0 = 5000 \<and>
   decimal_10_2 1000000 \<and>
   (\<exists>d. INSERT_resource_allocations 0 9
          ((sample_allocation 1 5)\<lparr>v_allocated_quantity := 1000000\<rparr>) sample_database = Inr d) \<and>
   \<not> decimal_10_2 10000000000 \<and>
   INSERT_resource_allocations 0 9
     ((sample_allocation 1 5)\<lparr>v_allocated_quantity := 10000000000\<rparr>) sample_database =
     Inl numeric_value_out_of_range"
proof -
  have ins: "INSERT_resource_allocations 0 9 (sample_allocation 1 5) sample_database =
             Inr allocated_database"
    by code_simp
  have l0: "load_at sample_database 5 0 = 0"
    and c: "map_option capacity (resources_by_pk sample_database 5) = Some (Some 800)"
    by code_simp+
  have d: "decimal_10_2 1000000" "\<not> decimal_10_2 10000000000"
    by (simp_all add: decimal_10_2_def)
  have big: "\<not> decimal_10_2
      (v_allocated_quantity ((sample_allocation 1 5)\<lparr>v_allocated_quantity := 10000000000\<rparr>))"
    using d by simp
  show ?thesis
    using ins l0 c d
      Allocate_ignores_capacity [where now = 0 and gen = 9 and v = "sample_allocation 1 5"
        and db = sample_database and db' = allocated_database and rid = 5 and t = 0
        and q = 1000000]
      Allocate_ignores_capacity [where now = 0 and gen = 9
        and v = "(sample_allocation 1 5)\<lparr>v_allocated_quantity := 10000000000\<rparr>"
        and db = sample_database, THEN conjunct2, THEN conjunct1, THEN mp, OF big]
    by (simp add: sample_allocation_def)
qed

theorem capacity_counterexample:
  "map_option capacity (resources_by_pk sample_database 5) = Some (Some 800) \<and>
   INSERT_resource_allocations 0 9 (sample_allocation 1 5) sample_database = Inr allocated_database \<and>
   map_option capacity (resources_by_pk allocated_database 5) = Some (Some 800) \<and>
   load_at allocated_database 5 0 = 5000 \<and>
   \<not> load_at allocated_database 5 0 \<le> 800"
  by code_simp

section \<open>Reading the event log\<close>

text \<open>
  Claim C9. The history of an order, read with a limit, is a list of the order's events
  sorted by \<open>created_at\<close> with the latest first, of at most \<open>limit\<close> events (exactly
  \<open>limit\<close>, or all of them when there are fewer), each belonging to the order, and no
  event of the order left out is later than a returned one. \<open>GetOrderById\<close> reads it with
  the limit 10.
\<close>

theorem History_latest_first:
  "sorted_wrt (\<lambda>a b. oe_created_at b \<le> oe_created_at a) (order_events_desc_limit db pk n) \<and>
   length (order_events_desc_limit db pk n) = min n (length (order_events_of db pk)) \<and>
   length (order_events_desc_limit db pk n) \<le> n \<and>
   (\<forall>e \<in> set (order_events_desc_limit db pk n).
      oe_order_id e = pk \<and> e \<in> set (order_events db)) \<and>
   (\<forall>e \<in> set (order_events_of db pk). \<forall>e' \<in> set (order_events_desc_limit db pk n).
      e \<notin> set (order_events_desc_limit db pk n) \<longrightarrow> oe_created_at e \<le> oe_created_at e') \<and>
   (\<forall>d. GET_ORDER_BY_ID db pk = Some d \<longrightarrow> od_order_events d = order_events_desc_limit db pk 10)"
proof -
  let ?all = "sort_key (\<lambda>e. - oe_created_at e) (order_events_of db pk)"
  have h: "order_events_desc_limit db pk n = take n ?all"
    by (simp add: order_events_desc_limit_def)
  have srt: "sorted_wrt (\<lambda>a b. oe_created_at b \<le> oe_created_at a) ?all"
    by (rule desc_sorted)
  have set_all: "set ?all = set (order_events_of db pk)"
    by simp
  have 1: "sorted_wrt (\<lambda>a b. oe_created_at b \<le> oe_created_at a) (take n ?all)"
    using srt by (rule sorted_wrt_take)
  have 2: "length (take n ?all) = min n (length (order_events_of db pk))"
    by (simp add: min.commute)
  have 3: "\<forall>e \<in> set (take n ?all). oe_order_id e = pk \<and> e \<in> set (order_events db)"
  proof
    fix e
    assume "e \<in> set (take n ?all)"
    then have "e \<in> set ?all" by (rule in_set_takeD)
    then show "oe_order_id e = pk \<and> e \<in> set (order_events db)"
      by (simp add: order_events_of_def)
  qed
  have 4: "\<forall>e \<in> set (order_events_of db pk). \<forall>e' \<in> set (take n ?all).
      e \<notin> set (take n ?all) \<longrightarrow> oe_created_at e \<le> oe_created_at e'"
  proof (intro ballI impI)
    fix e e'
    assume e: "e \<in> set (order_events_of db pk)" and e': "e' \<in> set (take n ?all)"
      and out: "e \<notin> set (take n ?all)"
    have "e \<in> set (take n ?all @ drop n ?all)"
      using e set_all by simp
    then have "e \<in> set (drop n ?all)"
      using out by (simp del: append_take_drop_id)
    then show "oe_created_at e \<le> oe_created_at e'"
      using sorted_take_drop [OF srt e'] by simp
  qed
  have 5: "\<forall>d. GET_ORDER_BY_ID db pk = Some d \<longrightarrow> od_order_events d = order_events_desc_limit db pk 10"
    by (auto simp: GET_ORDER_BY_ID_def split: option.splits)
  show ?thesis
    unfolding h using 1 2 3 4 5 by simp
qed

theorem History_latest_first_witness:
  "map (\<lambda>e. (oe_id e, oe_order_id e, oe_created_at e)) (order_events_desc_limit logged_database 2 2) =
     [(13, 2, 3), (12, 2, 2)] \<and>
   length (order_events_of logged_database 2) = 3 \<and>
   length (order_events_desc_limit logged_database 2 2) = 2 \<and>
   sorted_wrt (\<lambda>a b. oe_created_at b \<le> oe_created_at a) (order_events_desc_limit logged_database 2 2) \<and>
   map_option (length \<circ> od_order_events) (GET_ORDER_BY_ID logged_database 2) = Some 3"
proof -
  have lim: "map (\<lambda>e. (oe_id e, oe_order_id e, oe_created_at e))
               (order_events_desc_limit logged_database 2 2) = [(13, 2, 3), (12, 2, 2)]"
    by code_simp
  have len: "length (order_events_of logged_database 2) = 3"
    by code_simp
  have d: "map_option (length \<circ> od_order_events) (GET_ORDER_BY_ID logged_database 2) = Some 3"
    by code_simp
  show ?thesis
    using lim len d History_latest_first [of logged_database 2 2] by simp
qed

section \<open>The status and the replay of the log\<close>

text \<open>
  Claim C2, as the code has it. Start from the empty database and run any statements at
  times that never decrease (several may share one \<open>NOW()\<close>, as the inserts of the schema
  file do). For an order that one of them inserts, at every later point the order is
  stored and its status is the replay of its events, taken in \<open>created_at\<close> order, from
  the status the order was inserted with: \<open>pending\<close> when the insert leaves the status to
  the column's default, the given status otherwise.
\<close>

theorem status_replays_from_inserted_status:
  assumes "sorted_wrt (\<le>) (map fst (pre @ (t0, Insert_production_orders gen v) # post))"
    and "INSERT_production_orders t0 gen v (run pre empty_database) = Inr db1"
  shows "\<exists>p. production_orders_by_pk (run post db1) gen = Some p \<and>
           replay (case v_status v of None \<Rightarrow> pending | Some s \<Rightarrow> s)
             (order_events_asc (run post db1) gen) = Some (po_status p)"
proof -
  let ?db0 = "run pre empty_database"
  let ?s0 = "case v_status v of None \<Rightarrow> pending | Some s \<Rightarrow> s"
  let ?NEW = "new_production_order t0 gen v"
  have times: "sorted_wrt (\<le>) (map fst pre)" "sorted_wrt (\<le>) (map fst post)"
    "\<forall>t \<in> set (map fst pre). t \<le> t0" "\<forall>t \<in> set (map fst post). t0 \<le> t"
    using assms(1) by (auto simp: sorted_wrt_append)
  have inv0: "events_refer_to_orders ?db0 \<and> log_in_time_order ?db0 \<and>
         (\<forall>e \<in> set (order_events ?db0). oe_created_at e \<le> t0)"
    using run_keeps_log [of empty_database pre t0] empty_database_log times by simp
  have "exec t0 (Insert_production_orders gen v) ?db0 = Inr db1"
    using assms(2) by simp
  from exec_insert_order [OF this]
  have orders: "production_orders db1 = production_orders ?db0 @ [?NEW]"
    and events: "order_events db1 = order_events ?db0"
    and fresh: "\<forall>p \<in> set (production_orders ?db0). po_id p \<noteq> gen"
    by simp_all
  have refer1: "events_refer_to_orders db1"
    using inv0 orders events by (auto simp: events_refer_to_orders_def)
  have log1: "log_in_time_order db1"
    using inv0 events by (simp add: log_in_time_order_def)
  have before: "\<forall>e \<in> set (order_events db1). \<forall>t \<in> set (map fst post). oe_created_at e \<le> t"
    using inv0 events times(4) by fastforce
  have "find (\<lambda>p. po_id p = gen) (production_orders ?db0) = None"
    using fresh by (simp add: find_None_iff)
  then have look: "production_orders_by_pk db1 gen = Some ?NEW"
    using orders by (simp add: production_orders_by_pk_def find_snoc new_production_order_def)
  have "\<forall>e \<in> set (order_events ?db0). oe_order_id e \<noteq> gen"
    using inv0 fresh unfolding events_refer_to_orders_def by metis
  then have none: "order_events_of db1 gen = []"
    using events by (auto simp: order_events_of_def filter_empty_conv)
  have start: "\<exists>p. production_orders_by_pk db1 gen = Some p \<and>
           replay ?s0 (order_events_of db1 gen) = Some (po_status p)"
    using look none by (simp add: new_production_order_def)
  from run_keeps_replay [OF refer1 log1 times(2) before start]
  show ?thesis
    by (simp add: order_events_asc_sorted)
qed

theorem status_replays_from_inserted_status_witness:
  "sorted_wrt (\<le>) (map fst ((0, Insert_production_orders 2 PO_new) # lifecycle)) \<and>
   v_status PO_new = None \<and>
   map_option po_status (production_orders_by_pk logged_database 2) = Some completed \<and>
   map (\<lambda>e. (old_status e, new_status e)) (order_events_asc logged_database 2) =
     [(Some pending, Some scheduled), (Some scheduled, Some in_progress),
      (Some in_progress, Some completed)] \<and>
   replay pending (order_events_asc logged_database 2) = Some completed \<and>
   sorted_wrt (\<le>) (map fst
     ([(0 :: timestamptz, Insert_resources 5 John_Smith)] @
      (0, Insert_production_orders 1 PO_2024_001) #
      [(0, Insert_production_orders 3 PO_2024_005),
       (7, Update_production_orders_by_pk 8 1 [Set_status completed])])) \<and>
   v_status PO_2024_001 = Some in_progress \<and>
   map_option po_status (production_orders_by_pk completed_database 1) = Some completed \<and>
   map (\<lambda>e. (old_status e, new_status e)) (order_events_asc completed_database 1) =
     [(Some in_progress, Some completed)] \<and>
   replay in_progress (order_events_asc completed_database 1) = Some completed"
proof -
  let ?db1 = "step 0 (Insert_production_orders 2 PO_new) empty_database"
  have srt: "sorted_wrt (\<le>) (map fst ([] @ (0, Insert_production_orders 2 PO_new) # lifecycle))"
    by (simp add: lifecycle_def)
  have ins: "INSERT_production_orders 0 2 PO_new (run [] empty_database) = Inr ?db1"
    by (simp add: model_defs Let_def)
  have db: "run lifecycle ?db1 = logged_database"
    by (simp add: logged_database_def)
  have st: "map_option po_status (production_orders_by_pk logged_database 2) = Some completed"
    and evs: "map (\<lambda>e. (old_status e, new_status e)) (order_events_asc logged_database 2) =
     [(Some pending, Some scheduled), (Some scheduled, Some in_progress),
      (Some in_progress, Some completed)]"
    and v: "v_status PO_new = None"
    by code_simp+
  let ?pre = "[(0 :: timestamptz, Insert_resources 5 John_Smith)]"
  let ?post = "[(0 :: timestamptz, Insert_production_orders 3 PO_2024_005),
                (7, Update_production_orders_by_pk 8 1 [Set_status completed])]"
  let ?db2 = "step 0 (Insert_production_orders 1 PO_2024_001) (run ?pre empty_database)"
  have srt2: "sorted_wrt (\<le>) (map fst (?pre @ (0, Insert_production_orders 1 PO_2024_001) # ?post))"
    by simp
  have ins2: "INSERT_production_orders 0 1 PO_2024_001 (run ?pre empty_database) = Inr ?db2"
    by code_simp
  have db2: "run ?post ?db2 = completed_database"
    by (simp add: completed_database_def sample_database_def)
  have st2: "map_option po_status (production_orders_by_pk completed_database 1) = Some completed"
    and evs2: "map (\<lambda>e. (old_status e, new_status e)) (order_events_asc completed_database 1) =
     [(Some in_progress, Some completed)]"
    and v2: "v_status PO_2024_001 = Some in_progress"
    by code_simp+
  show ?thesis
    using srt st evs v status_replays_from_inserted_status [OF srt ins]
      srt2 st2 evs2 v2 status_replays_from_inserted_status [OF srt2 ins2]
    by (auto simp: db db2)
qed

theorem status_replay_counterexample:
  "sample_database =
     run [(0, Insert_resources 5 John_Smith), (0, Insert_production_orders 1 PO_2024_001),
          (0, Insert_production_orders 3 PO_2024_005)] empty_database \<and>
   map_option po_status (production_orders_by_pk sample_database 1) = Some in_progress \<and>
   order_events_asc sample_database 1 = [] \<and>
   replay pending (order_events_asc sample_database 1) = Some pending \<and>
   replay pending (order_events_asc sample_database 1) \<noteq>
     map_option po_status (production_orders_by_pk sample_database 1)"
  by (simp add: model_defs)

end
